theory Spec2Isabelle
  imports Complex_Main "HOL-Library.Monad_Syntax"
begin

section \<open>The embedding of C doubles\<close>

text \<open>
  The library computes with C doubles. The embedding is over the exact reals: a double
  that holds a finite number is a \<open>real\<close>, and rounding is not followed (the one
  exception is the round trip of \<open>E2f\<close> and \<open>f2E\<close>, which a section of its own also
  evaluates with rounding). What a function
  hands back (its return value, or the vector it writes) is one of
  \<^item> \<open>Val x\<close>: the finite real value \<open>x\<close>;
  \<^item> \<open>NaN\<close>: the NaN sentinel (for a vector: all three components NaN), as written by
    the source's error branches or produced by a quotient \<open>0/0\<close>;
  \<^item> \<open>NonReal\<close>: an operation of the source left the reals (a division by zero, a root
    or an inverse function outside its real domain). The C program continues with
    infinities and NaN there; the embedding does not follow it.
  The diagnostics printed by the error branches are not part of the result and are
  left out.
\<close>

datatype 'a fp = Val 'a | NaN | NonReal

definition fp_of :: "'a option \<Rightarrow> 'a fp" where
  "fp_of r = (case r of Some x \<Rightarrow> Val x | None \<Rightarrow> NonReal)"

text \<open>The partial operations of the C arithmetic and of libm, with their real domains.\<close>

definition ddiv :: "real \<Rightarrow> real \<Rightarrow> real option" where
  "ddiv x y = (if y = 0 then None else Some (x / y))"

definition dsqrt :: "real \<Rightarrow> real option" where
  "dsqrt x = (if x < 0 then None else Some (sqrt x))"

definition dacos :: "real \<Rightarrow> real option" where
  "dacos x = (if - 1 \<le> x \<and> x \<le> 1 then Some (arccos x) else None)"

definition dtan :: "real \<Rightarrow> real option" where
  "dtan x = (if cos x = 0 then None else Some (tan x))"

text \<open>
  libm's \<open>atan2 y x\<close>: the angle in \<open>(-pi, pi]\<close> of the point \<open>(x, y)\<close>, and \<open>0\<close> at the
  origin (the reals have one zero, the positive one of C).
\<close>

definition atan2 :: "real \<Rightarrow> real \<Rightarrow> real" where
  "atan2 y x =
     (if 0 < x then arctan (y / x)
      else if x < 0 then (if 0 \<le> y then arctan (y / x) + pi else arctan (y / x) - pi)
      else if 0 < y then pi / 2
      else if y < 0 then - (pi / 2)
      else 0)"

text \<open>
  Modelled from the spec: the helpers \<open>arc_tanh\<close> and \<open>arc_cosh\<close> are declared outside
  the source files at hand; the spec names them as the inverse hyperbolic tangent
  (\<open>atanh\<close>) and cosine. Outside their real domains they have no real value.
\<close>

definition arc_tanh :: "real \<Rightarrow> real option" where
  "arc_tanh x = (if - 1 < x \<and> x < 1 then Some (artanh x) else None)"

definition arc_cosh :: "real \<Rightarrow> real option" where
  "arc_cosh x = (if 1 \<le> x then Some (arcosh x) else None)"

section \<open>Anomaly conversions\<close>

definition E2f :: "real \<Rightarrow> real \<Rightarrow> real fp" where
  "E2f Ecc e =
     (if e \<ge> 0 \<and> e < 1
      then Val (2 * atan2 (sqrt (1 + e) * sin (Ecc / 2)) (sqrt (1 - e) * cos (Ecc / 2)))
      else NaN)"

definition E2M :: "real \<Rightarrow> real \<Rightarrow> real fp" where
  "E2M Ecc e = (if e \<ge> 0 \<and> e < 1 then Val (Ecc - e * sin Ecc) else NaN)"

definition f2E :: "real \<Rightarrow> real \<Rightarrow> real fp" where
  "f2E f e =
     (if e \<ge> 0 \<and> e < 1
      then Val (2 * atan2 (sqrt (1 - e) * sin (f / 2)) (sqrt (1 + e) * cos (f / 2)))
      else NaN)"

definition f2H :: "real \<Rightarrow> real \<Rightarrow> real fp" where
  "f2H f e =
     (if e > 1
      then fp_of (do {
             t \<leftarrow> dtan (f / 2);
             h \<leftarrow> arc_tanh (sqrt ((e - 1) / (e + 1)) * t);
             Some (2 * h) })
      else NaN)"

definition H2f :: "real \<Rightarrow> real \<Rightarrow> real fp" where
  "H2f H e =
     (if e > 1 then Val (2 * arctan (sqrt ((e + 1) / (e - 1)) * tanh (H / 2))) else NaN)"

definition H2N :: "real \<Rightarrow> real \<Rightarrow> real fp" where
  "H2N H e = (if e > 1 then Val (e * sinh H - H) else NaN)"

text \<open>
  The Newton-Raphson loops of \<open>M2E\<close> and \<open>N2H\<close>. The loop state is the triple of the
  source's variables \<open>(E1, dE, count)\<close>; one call of the function is one test of the
  \<open>while\<close> condition \<open>fabs(dE) > small\<close> with \<open>small = 1e-13\<close>, followed by the body when
  the test succeeds. The body's \<open>if(++count > max)\<close>, \<open>max = 200\<close>, sets \<open>dE\<close> to zero.
\<close>

function M2E_loop :: "real \<Rightarrow> real \<Rightarrow> real \<times> real \<times> nat \<Rightarrow> real \<times> real \<times> nat" where
  "M2E_loop M e (E1, dE, count) =
     (if \<bar>dE\<bar> > 1 / 10 ^ 13
      then (let dE' = (E1 - e * sin E1 - M) / (1 - e * cos E1);
                E1' = E1 - dE';
                count' = count + 1
            in if count' > 200 then M2E_loop M e (E1', 0, count')
               else M2E_loop M e (E1', dE', count'))
      else (E1, dE, count))"
  by pat_completeness auto
termination
  by (relation "measure (\<lambda>(M, e, E1, dE, count).
        if \<bar>dE\<bar> > 1 / 10 ^ 13 then Suc (201 - count) else 0)") auto

declare M2E_loop.simps [simp del]

definition M2E_run :: "real \<Rightarrow> real \<Rightarrow> real \<times> real \<times> nat" where
  "M2E_run M e = M2E_loop M e (M, 10 * (1 / 10 ^ 13), 0)"

definition M2E :: "real \<Rightarrow> real \<Rightarrow> real fp" where
  "M2E M e = (if e \<ge> 0 \<and> e < 1 then Val (fst (M2E_run M e)) else NaN)"

function N2H_loop :: "real \<Rightarrow> real \<Rightarrow> real \<times> real \<times> nat \<Rightarrow> real \<times> real \<times> nat" where
  "N2H_loop N e (H1, dH, count) =
     (if \<bar>dH\<bar> > 1 / 10 ^ 13
      then (let dH' = (e * sinh H1 - H1 - N) / (e * cosh H1 - 1);
                H1' = H1 - dH';
                count' = count + 1
            in if count' > 200 then N2H_loop N e (H1', 0, count')
               else N2H_loop N e (H1', dH', count'))
      else (H1, dH, count))"
  by pat_completeness auto
termination
  by (relation "measure (\<lambda>(N, e, H1, dH, count).
        if \<bar>dH\<bar> > 1 / 10 ^ 13 then Suc (201 - count) else 0)") auto

declare N2H_loop.simps [simp del]

definition N2H_run :: "real \<Rightarrow> real \<Rightarrow> real \<times> real \<times> nat" where
  "N2H_run N e = N2H_loop N e (N, 10 * (1 / 10 ^ 13), 0)"

definition N2H :: "real \<Rightarrow> real \<Rightarrow> real fp" where
  "N2H N e = (if e > 1 then Val (fst (N2H_run N e)) else NaN)"

section \<open>Vectors and orbit elements\<close>

text \<open>
  Modelled from the spec: the vector helpers \<open>norm\<close>, \<open>dot\<close>, \<open>cross\<close>, \<open>mult\<close>, \<open>add\<close>,
  \<open>equal\<close> and \<open>set3\<close> are defined outside the source files at hand; the spec gives them
  as the Euclidean norm, the dot and cross products, the scalar multiple, the sum, the
  copy and the construction of a vector. The source indexes a vector from 1 to 3; the
  triple holds the components 1, 2, 3 in this order.
\<close>

type_synonym vec3 = "real \<times> real \<times> real"

fun norm_v3 :: "vec3 \<Rightarrow> real" where
  "norm_v3 (x, y, z) = sqrt (x * x + y * y + z * z)"

fun dot :: "vec3 \<Rightarrow> vec3 \<Rightarrow> real" where
  "dot (a1, a2, a3) (b1, b2, b3) = a1 * b1 + a2 * b2 + a3 * b3"

fun cross :: "vec3 \<Rightarrow> vec3 \<Rightarrow> vec3" where
  "cross (a1, a2, a3) (b1, b2, b3) =
     (a2 * b3 - a3 * b2, a3 * b1 - a1 * b3, a1 * b2 - a2 * b1)"

fun mult_v3 :: "real \<Rightarrow> vec3 \<Rightarrow> vec3" where
  "mult_v3 s (x, y, z) = (s * x, s * y, s * z)"

fun add_v3 :: "vec3 \<Rightarrow> vec3 \<Rightarrow> vec3" where
  "add_v3 (a1, a2, a3) (b1, b2, b3) = (a1 + b1, a2 + b2, a3 + b3)"

definition equal_v3 :: "vec3 \<Rightarrow> vec3" where
  "equal_v3 v = v"

definition set3 :: "real \<Rightarrow> real \<Rightarrow> real \<Rightarrow> vec3" where
  "set3 x y z = (x, y, z)"

fun comp1 :: "vec3 \<Rightarrow> real" where "comp1 (x, y, z) = x"
fun comp2 :: "vec3 \<Rightarrow> real" where "comp2 (x, y, z) = y"
fun comp3 :: "vec3 \<Rightarrow> real" where "comp3 (x, y, z) = z"

text \<open>
  The struct \<open>classicElements\<close> with its fields \<open>a\<close>, \<open>e\<close>, \<open>i\<close>, \<open>Omega\<close>, \<open>omega\<close>, \<open>anom\<close>
  (prefixed here, since the source's names are used for variables). \<open>rv2elem\<close> can
  store an anomaly that is not a real number while the other fields are; the field
  \<open>anom\<close> is therefore optional, \<open>None\<close> standing for NaN.
\<close>

record classicElements =
  elem_a :: real
  elem_e :: real
  elem_i :: real
  elem_Omega :: real
  elem_omega :: real
  elem_anom :: "real option"

section \<open>Elements to position and velocity\<close>

text \<open>
  \<open>elem2rv\<close> writes \<open>rVec\<close> and \<open>vVec\<close>; the result is the pair. With a NaN anomaly
  every component written is NaN (each is a product or sum with \<open>cos\<close> or \<open>sin\<close> of
  it).
\<close>

definition elem2rv :: "real \<Rightarrow> classicElements \<Rightarrow> (vec3 \<times> vec3) fp" where
  "elem2rv mu elements =
     (case elem_anom elements of
        None \<Rightarrow> NaN
      | Some f \<Rightarrow>
         (let a = elem_a elements;
              e = elem_e elements;
              i = elem_i elements;
              AN = elem_Omega elements;
              AP = elem_omega elements
          in if e = 1 \<and> a > 0
             then fp_of (do {
                    let Ecc = f;
                    let r = a * (1 - e * cos Ecc);
                    q \<leftarrow> ddiv (2 * mu) r;
                    v \<leftarrow> dsqrt (q - mu / a);
                    let ir = (cos AN * cos AP - sin AN * sin AP * cos i,
                              sin AN * cos AP + cos AN * sin AP * cos i,
                              sin AP * sin i);
                    Some (mult_v3 r ir,
                          if sin Ecc > 0 then mult_v3 (- v) ir else mult_v3 v ir) })
             else fp_of (do {
                    let p = (if e = 1 \<and> a < 0 then (let rp = - a in 2 * rp)
                             else a * (1 - e * e));
                    r \<leftarrow> ddiv p (1 + e * cos f);
                    let theta = AP + f;
                    h \<leftarrow> dsqrt (mu * p);
                    c \<leftarrow> ddiv (- mu) h;
                    Some ((r * (cos AN * cos theta - sin AN * sin theta * cos i),
                           r * (sin AN * cos theta + cos AN * sin theta * cos i),
                           r * (sin theta * sin i)),
                          (c * (cos AN * (sin theta + e * sin AP)
                                + sin AN * (cos theta + e * cos AP) * cos i),
                           c * (sin AN * (sin theta + e * sin AP)
                                - cos AN * (cos theta + e * cos AP) * cos i),
                           c * (- (cos theta + e * cos AP) * sin i))) })))"

section \<open>Position and velocity to elements\<close>

text \<open>
  \<open>rv2elem\<close> divides by \<open>r\<close> and by \<open>mu\<close> from its first statements on (\<open>1. / r\<close>,
  \<open>-mu / r\<close>, \<open>norm(cVec) / mu\<close>); with \<open>r = 0\<close> or \<open>mu = 0\<close> the computation leaves the
  reals. The other divisions are behind the source's own tests (\<open>fabs(ai) > eps\<close>,
  \<open>h < eps\<close> failing, \<open>fabs(e) > eps\<close>, \<open>norm(ih) > norm(ip)\<close>) except \<open>1 / norm(ip)\<close>,
  which is guarded here.
\<close>

definition rv2elem :: "real \<Rightarrow> vec3 \<Rightarrow> vec3 \<Rightarrow> classicElements fp" where
  "rv2elem mu rVec vVec =
     (let eps = 1 / 10 ^ 12;
          r = norm_v3 rVec
      in if r = 0 \<or> mu = 0 then NonReal
         else
          (let ir = mult_v3 (1 / r) rVec;
               hVec = cross rVec vVec;
               h = norm_v3 hVec;
               cVec = add_v3 (cross vVec hVec) (mult_v3 (- mu / r) rVec);
               e0 = norm_v3 cVec / mu;
               ai = 2 / r - dot vVec vVec / mu;
               (a, e) = (if \<bar>ai\<bar> > eps then (1 / ai, e0)
                         else (let p = h * h / mu; rp = p / 2 in (- rp, 1)))
           in fp_of (do {
                (ih, ie) \<leftarrow>
                   (if h < eps
                    then (let ie = equal_v3 ir;
                              dum = set3 0 0 1;
                              dum2 = set3 0 1 0;
                              ih = cross ie dum;
                              ip = cross ie dum2
                          in if norm_v3 ih > norm_v3 ip
                             then Some (mult_v3 (1 / norm_v3 ih) ih, ie)
                             else do { s \<leftarrow> ddiv 1 (norm_v3 ip); Some (mult_v3 s ip, ie) })
                    else Some (mult_v3 (1 / h) hVec,
                               if \<bar>e\<bar> > eps then mult_v3 (1 / mu / e) cVec
                               else equal_v3 ir));
                let ip = cross ih ie;
                let Omega = atan2 (comp1 ih) (- comp2 ih);
                i \<leftarrow> dacos (comp3 ih);
                let omega = atan2 (comp3 ie) (comp3 ip);
                let anom =
                   (if h < eps
                    then (if ai > 0
                          then do {
                                 Ecc \<leftarrow> dacos (1 - r * ai);
                                 Some (if dot rVec vVec > 0 then 2 * pi - Ecc else Ecc) }
                          else do {
                                 H \<leftarrow> arc_cosh (r * ai + 1);
                                 Some (if dot rVec vVec < 0 then 2 * pi - H else H) })
                    else (let dum = cross ie ir
                          in Some (atan2 (dot dum ih) (dot ie ir))));
                Some \<lparr>elem_a = a, elem_e = e, elem_i = i, elem_Omega = Omega,
                       elem_omega = omega, elem_anom = anom\<rparr> })))"

section \<open>Perturbation models\<close>

text \<open>
  The constants \<open>MU_EARTH\<close>, \<open>REQ_EARTH\<close> and \<open>J2_EARTH\<close> to \<open>J6_EARTH\<close> are macros of a
  header outside the source files at hand; the functions take them as a parameter.
\<close>

record earth_constants =
  MU_EARTH :: real
  REQ_EARTH :: real
  J2_EARTH :: real
  J3_EARTH :: real
  J4_EARTH :: real
  J5_EARTH :: real
  J6_EARTH :: real

definition AtmosphericDensity :: "real \<Rightarrow> real" where
  "AtmosphericDensity alt =
     (if alt > 1000
      then (let logdensity = (- (7 / 100000)) * alt - 14.464 in 10 powr logdensity)
      else (let val = (alt - 526.8000) / 292.8563;
                logdensity = 0.34047 * val ^ 6 - 0.5889 * val ^ 5 - 0.5269 * val ^ 4
                             + 1.0036 * val ^ 3 + 0.60713 * val ^ 2 - 2.3024 * val - 12.575
            in 10 powr logdensity))"

text \<open>
  The lookup tables of \<open>Debye\<close>. Modelled from the spec: the macro \<open>N_DEBYE_PARAMETERS\<close>
  is defined outside the source files at hand; the spec gives 37 samples, the number
  of initialisers of \<open>X\<close> and of \<open>Y\<close>.
\<close>

definition N_DEBYE_PARAMETERS :: nat where
  "N_DEBYE_PARAMETERS = 37"

definition Debye_X :: "real list" where
  "Debye_X = [200, 250, 300, 350, 400, 450, 500, 550,
     600, 650, 700, 750, 800, 850, 900, 950, 1000, 1050, 1100, 1150,
     1200, 1250, 1300, 1350, 1400, 1450, 1500, 1550, 1600, 1650, 1700,
     1750, 1800, 1850, 1900, 1950, 2000]"

definition Debye_Y :: "real list" where
  "Debye_Y = [5.64 / 10 ^ 3, 3.92 / 10 ^ 3, 3.24 / 10 ^ 3, 3.59 / 10 ^ 3,
     4.04 / 10 ^ 3, 4.28 / 10 ^ 3, 4.54 / 10 ^ 3, 5.30 / 10 ^ 3, 6.55 / 10 ^ 3,
     7.30 / 10 ^ 3, 8.31 / 10 ^ 3,
     8.38 / 10 ^ 3, 8.45 / 10 ^ 3, 9.84 / 10 ^ 3, 1.22 / 10 ^ 2, 1.37 / 10 ^ 2,
     1.59 / 10 ^ 2, 1.75 / 10 ^ 2,
     1.95 / 10 ^ 2, 2.09 / 10 ^ 2, 2.25 / 10 ^ 2, 2.25 / 10 ^ 2, 2.25 / 10 ^ 2,
     2.47 / 10 ^ 2, 2.76 / 10 ^ 2,
     2.76 / 10 ^ 2, 2.76 / 10 ^ 2, 2.76 / 10 ^ 2, 2.76 / 10 ^ 2, 2.76 / 10 ^ 2,
     2.76 / 10 ^ 2, 3.21 / 10 ^ 2,
     3.96 / 10 ^ 2, 3.96 / 10 ^ 2, 3.96 / 10 ^ 2, 3.96 / 10 ^ 2, 3.96 / 10 ^ 2]"

text \<open>
  A read of a C array: inside the array it is the element, outside it the behaviour of
  the program is undefined and the read has no value.
\<close>

definition array_get :: "real list \<Rightarrow> nat \<Rightarrow> real option" where
  "array_get xs k = (if k < length xs then Some (xs ! k) else None)"

datatype fault = OutOfBounds

text \<open>
  The search loop \<open>for(i = 0; i < N_DEBYE_PARAMETERS - 1; i++) if(X[i+1] > alt) break;\<close>
  started at \<open>i\<close>: the value of \<open>i\<close> after the loop, or \<open>None\<close> when a read of \<open>X\<close> is out
  of bounds.
\<close>

function Debye_search :: "real \<Rightarrow> nat \<Rightarrow> nat option" where
  "Debye_search alt i =
     (if i < N_DEBYE_PARAMETERS - 1
      then (case array_get Debye_X (i + 1) of
              None \<Rightarrow> None
            | Some x \<Rightarrow> if x > alt then Some i else Debye_search alt (i + 1))
      else Some i)"
  by pat_completeness auto
termination
  by (relation "measure (\<lambda>(alt, i). N_DEBYE_PARAMETERS - 1 - i)") auto

declare Debye_search.simps [simp del]

definition Debye_interp :: "real \<Rightarrow> real option" where
  "Debye_interp alt = do {
     i \<leftarrow> Debye_search alt 0;
     xi \<leftarrow> array_get Debye_X i;
     xi1 \<leftarrow> array_get Debye_X (i + 1);
     yi \<leftarrow> array_get Debye_Y i;
     yi1 \<leftarrow> array_get Debye_Y (i + 1);
     let a = (alt - xi) / (xi1 - xi);
     Some (yi + a * (yi1 - yi)) }"

definition Debye :: "real \<Rightarrow> fault + real fp" where
  "Debye alt0 =
     (if alt0 > 2000 \<and> alt0 \<le> 30000
      then (case Debye_interp 2000 of None \<Rightarrow> Inl OutOfBounds | Some d \<Rightarrow> Inr (Val d))
      else if alt0 > 30000 \<and> alt0 \<le> 35000 then Inr (Val (0.1 * alt0 - 2999.7))
      else if alt0 < 200 \<or> alt0 > 35000 then Inr NaN
      else (case Debye_interp alt0 of None \<Rightarrow> Inl OutOfBounds | Some d \<Rightarrow> Inr (Val d)))"

text \<open>
  The piecewise-linear interpolation of the table, in the spec's words: on the segment
  \<open>k\<close> of width 50 km that holds \<open>alt\<close>, the line through the samples \<open>k\<close> and \<open>k + 1\<close>.
\<close>

definition Debye_table_interpolation :: "real \<Rightarrow> real" where
  "Debye_table_interpolation alt =
     (let k = nat \<lfloor>(alt - 200) / 50\<rfloor>
      in Debye_Y ! k
         + (alt - Debye_X ! k) / (Debye_X ! (k + 1) - Debye_X ! k)
           * (Debye_Y ! (k + 1) - Debye_Y ! k))"

text \<open>
  \<open>AtmosphericDrag\<close> writes \<open>advec\<close>. With \<open>m = 0\<close> the quotient \<open>Cd * A / m\<close> leaves the
  reals; with \<open>v = 0\<close> the drag \<open>ad\<close> is zero and \<open>ad / v\<close> is \<open>0/0\<close>, a NaN that \<open>mult\<close>
  spreads to the three components.
\<close>

definition AtmosphericDrag ::
  "earth_constants \<Rightarrow> real \<Rightarrow> real \<Rightarrow> real \<Rightarrow> vec3 \<Rightarrow> vec3 \<Rightarrow> vec3 fp" where
  "AtmosphericDrag k Cd A m rvec vvec =
     (let r = norm_v3 rvec;
          v = norm_v3 vvec;
          alt = r - REQ_EARTH k
      in if alt \<le> 0 then NaN
         else if m = 0 then NonReal
         else
          (let density = AtmosphericDensity alt;
               ad = ((- 0.5) * density * (Cd * A / m) * ((v * 1000) ^ 2)) / 1000
           in if v = 0 then NaN else Val (mult_v3 (ad / v) vvec)))"

text \<open>
  \<open>JPerturb\<close> writes \<open>ajtot\<close>. With \<open>r = 0\<close> the position is the zero vector and every
  quotient \<open>x / r\<close>, \<open>y / r\<close>, \<open>z / r\<close> is \<open>0/0\<close>: all components written are NaN.
\<close>

definition JPerturb :: "earth_constants \<Rightarrow> vec3 \<Rightarrow> int \<Rightarrow> vec3 fp" where
  "JPerturb k rvec num =
     (let mu = MU_EARTH k;
          req = REQ_EARTH k;
          x = comp1 rvec;
          y = comp2 rvec;
          z = comp3 rvec;
          r = norm_v3 rvec
      in if num < 2 \<or> num > 6 then NaN
         else if r = 0 then NaN
         else
          (let ajtot2 =
                 mult_v3 (- 3 / 2 * J2_EARTH k * (mu / r ^ 2) * (req / r) ^ 2)
                   (set3 ((1 - 5 * (z / r) ^ 2) * (x / r))
                         ((1 - 5 * (z / r) ^ 2) * (y / r))
                         ((3 - 5 * (z / r) ^ 2) * (z / r)));
               ajtot3 =
                 (if num \<ge> 3
                  then add_v3 ajtot2
                         (mult_v3 (1 / 2 * J3_EARTH k * (mu / r ^ 2) * (req / r) ^ 3)
                            (set3 (5 * (7 * (z / r) ^ 3 - 3 * (z / r)) * (x / r))
                                  (5 * (7 * (z / r) ^ 3 - 3 * (z / r)) * (y / r))
                                  (- 3 * (10 * (z / r) ^ 2 - (35 / 3) * (z / r) ^ 4 - 1))))
                  else ajtot2);
               ajtot4 =
                 (if num \<ge> 4
                  then add_v3 ajtot3
                         (mult_v3 (5 / 8 * J4_EARTH k * (mu / r ^ 2) * (req / r) ^ 4)
                            (set3 ((3 - 42 * (z / r) ^ 2 + 63 * (z / r) ^ 4) * (x / r))
                                  ((3 - 42 * (z / r) ^ 2 + 63 * (z / r) ^ 4) * (y / r))
                                  ((15 - 70 * (z / r) ^ 2 + 63 * (z / r) ^ 4) * (z / r))))
                  else ajtot3);
               ajtot5 =
                 (if num \<ge> 5
                  then add_v3 ajtot4
                         (mult_v3 (1 / 8 * J5_EARTH k * (mu / r ^ 2) * (req / r) ^ 5)
                            (set3 (3 * (35 * (z / r) - 210 * (z / r) ^ 3 + 231 * (z / r) ^ 5)
                                     * (x / r))
                                  (3 * (35 * (z / r) - 210 * (z / r) ^ 3 + 231 * (z / r) ^ 5)
                                     * (y / r))
                                  (- (15 - 315 * (z / r) ^ 2 + 945 * (z / r) ^ 4
                                      - 693 * (z / r) ^ 6))))
                  else ajtot4);
               ajtot6 =
                 (if num \<ge> 6
                  then add_v3 ajtot5
                         (mult_v3 (- 1 / 16 * J6_EARTH k * (mu / r ^ 2) * (req / r) ^ 6)
                            (set3 ((35 - 945 * (z / r) ^ 2 + 3465 * (z / r) ^ 4
                                      - 3003 * (z / r) ^ 6) * (x / r))
                                  ((35 - 945 * (z / r) ^ 2 + 3465 * (z / r) ^ 4
                                      - 3003 * (z / r) ^ 6) * (y / r))
                                  (- (3003 * (z / r) ^ 6 - 4851 * (z / r) ^ 4
                                      + 2205 * (z / r) ^ 2 - 245) * (z / r))))
                  else ajtot5)
           in Val ajtot6))"

section \<open>Closed forms named by the specification\<close>

text \<open>
  The zonal term of degree \<open>n\<close>, \<open>2 \<le> n \<le> 6\<close>: the vector that the block \<open>if(num >= n)\<close> of
  \<open>JPerturb\<close> computes from the position alone, before it is added to the total.
\<close>

definition zonal_term :: "earth_constants \<Rightarrow> vec3 \<Rightarrow> int \<Rightarrow> vec3" where
  "zonal_term k rvec n =
     (let g = MU_EARTH k / (norm_v3 rvec) ^ 2;
          q = REQ_EARTH k / norm_v3 rvec;
          x = comp1 rvec / norm_v3 rvec;
          y = comp2 rvec / norm_v3 rvec;
          z = comp3 rvec / norm_v3 rvec
      in if n = 2 then
           mult_v3 (- 3 / 2 * J2_EARTH k * g * q ^ 2)
             ((1 - 5 * z ^ 2) * x, (1 - 5 * z ^ 2) * y, (3 - 5 * z ^ 2) * z)
         else if n = 3 then
           mult_v3 (1 / 2 * J3_EARTH k * g * q ^ 3)
             (5 * (7 * z ^ 3 - 3 * z) * x, 5 * (7 * z ^ 3 - 3 * z) * y,
              - 3 * (10 * z ^ 2 - (35 / 3) * z ^ 4 - 1))
         else if n = 4 then
           mult_v3 (5 / 8 * J4_EARTH k * g * q ^ 4)
             ((3 - 42 * z ^ 2 + 63 * z ^ 4) * x, (3 - 42 * z ^ 2 + 63 * z ^ 4) * y,
              (15 - 70 * z ^ 2 + 63 * z ^ 4) * z)
         else if n = 5 then
           mult_v3 (1 / 8 * J5_EARTH k * g * q ^ 5)
             (3 * (35 * z - 210 * z ^ 3 + 231 * z ^ 5) * x,
              3 * (35 * z - 210 * z ^ 3 + 231 * z ^ 5) * y,
              - (15 - 315 * z ^ 2 + 945 * z ^ 4 - 693 * z ^ 6))
         else
           mult_v3 (- 1 / 16 * J6_EARTH k * g * q ^ 6)
             ((35 - 945 * z ^ 2 + 3465 * z ^ 4 - 3003 * z ^ 6) * x,
              (35 - 945 * z ^ 2 + 3465 * z ^ 4 - 3003 * z ^ 6) * y,
              - (3003 * z ^ 6 - 4851 * z ^ 4 + 2205 * z ^ 2 - 245) * z))"

text \<open>
  The elementary rotations about the third and the first axis, and the 3-1-3 rotation
  (node \<open>AN\<close>, inclination \<open>i\<close>, in-plane angle \<open>th\<close>) that takes orbit-plane coordinates
  to inertial ones.
\<close>

fun rot3 :: "real \<Rightarrow> vec3 \<Rightarrow> vec3" where
  "rot3 t (x, y, z) = (cos t * x - sin t * y, sin t * x + cos t * y, z)"

fun rot1 :: "real \<Rightarrow> vec3 \<Rightarrow> vec3" where
  "rot1 t (x, y, z) = (x, cos t * y - sin t * z, sin t * y + cos t * z)"

definition rot313 :: "real \<Rightarrow> real \<Rightarrow> real \<Rightarrow> vec3 \<Rightarrow> vec3" where
  "rot313 AN i th v = rot3 AN (rot1 i (rot3 th v))"

text \<open>
  The Newton-Raphson correction and update of the inverse Kepler equations, as the
  specification writes them: \<open>E \<leftarrow> E - (E - e sin E - M) / (1 - e cos E)\<close>, and the same
  with \<open>sinh\<close> and \<open>cosh\<close> for the hyperbolic equation.
\<close>

definition M2E_delta :: "real \<Rightarrow> real \<Rightarrow> real \<Rightarrow> real" where
  "M2E_delta M e E = (E - e * sin E - M) / (1 - e * cos E)"

definition M2E_newton :: "real \<Rightarrow> real \<Rightarrow> real \<Rightarrow> real" where
  "M2E_newton M e E = E - M2E_delta M e E"

definition N2H_delta :: "real \<Rightarrow> real \<Rightarrow> real \<Rightarrow> real" where
  "N2H_delta N e H = (e * sinh H - H - N) / (e * cosh H - 1)"

definition N2H_newton :: "real \<Rightarrow> real \<Rightarrow> real \<Rightarrow> real" where
  "N2H_newton N e H = H - N2H_delta N e H"

section \<open>Double-precision evaluation of the anomaly round trip\<close>





section \<open>Domain checks of the anomaly conversions\<close>

text \<open>
  C7. Each anomaly conversion is a total function; it returns the NaN sentinel exactly
  when the eccentricity is outside its domain: \<open>e < 0\<close> or \<open>1 \<le> e\<close> for \<open>E2f\<close>, \<open>f2E\<close>,
  \<open>E2M\<close>, \<open>M2E\<close>, and \<open>e \<le> 1\<close> for \<open>f2H\<close>, \<open>H2f\<close>, \<open>H2N\<close>, \<open>N2H\<close>. Inside the domain
  (with \<open>e = 0\<close> for the elliptic family) the sentinel branch is not taken. In
  particular \<open>E2f Ecc 1.5\<close> is the sentinel for every \<open>Ecc\<close>.
\<close>

theorem anomaly_domain_sentinel:
  "(E2f x e = NaN \<longleftrightarrow> e < 0 \<or> 1 \<le> e) \<and>
   (f2E x e = NaN \<longleftrightarrow> e < 0 \<or> 1 \<le> e) \<and>
   (E2M x e = NaN \<longleftrightarrow> e < 0 \<or> 1 \<le> e) \<and>
   (M2E x e = NaN \<longleftrightarrow> e < 0 \<or> 1 \<le> e) \<and>
   (f2H x e = NaN \<longleftrightarrow> e \<le> 1) \<and>
   (H2f x e = NaN \<longleftrightarrow> e \<le> 1) \<and>
   (H2N x e = NaN \<longleftrightarrow> e \<le> 1) \<and>
   (N2H x e = NaN \<longleftrightarrow> e \<le> 1) \<and>
   E2f x 0 \<noteq> NaN \<and> f2E x 0 \<noteq> NaN \<and> E2M x 0 \<noteq> NaN \<and> M2E x 0 \<noteq> NaN \<and>
   E2f x (3 / 2) = NaN"
  by (auto simp: E2f_def f2E_def E2M_def M2E_def f2H_def H2f_def H2N_def N2H_def
        fp_of_def split: option.splits)

section \<open>The Debye length table\<close>

lemma Debye_tables_length: "length Debye_X = 37" "length Debye_Y = 37"
  by (simp_all add: Debye_X_def Debye_Y_def)

lemma Debye_X_map: "Debye_X = map (\<lambda>k. 200 + 50 * real k) [0..<37]"
  unfolding Debye_X_def by (simp add: upt_rec)

lemma Debye_X_nth: "k < 37 \<Longrightarrow> Debye_X ! k = 200 + 50 * real k"
  by (simp add: Debye_X_map del: upt.simps)

text \<open>The search stops at the segment that holds the altitude.\<close>

lemma Debye_search_segment:
  "i \<le> k \<Longrightarrow> k < 36 \<Longrightarrow> 200 + 50 * real k \<le> alt \<Longrightarrow> alt < 200 + 50 * real (k + 1)
    \<Longrightarrow> Debye_search alt i = Some k"
proof (induction "k - i" arbitrary: i)
  case 0
  then have "i = k" by simp
  with 0 show ?case
    by (subst Debye_search.simps)
       (simp add: N_DEBYE_PARAMETERS_def array_get_def Debye_tables_length Debye_X_nth)
next
  case (Suc n)
  then have lt: "i < k" by simp
  then have "real (i + 1) \<le> real k" by simp
  then have "50 * real (i + 1) \<le> 50 * real k" by (simp only: mult_le_cancel_left_pos zero_less_numeral)
  then have below: "200 + 50 * real (i + 1) \<le> alt" using Suc.prems(3) by argo
  have "Debye_search alt (i + 1) = Some k"
    using Suc by (intro Suc.hyps(1)) auto
  then show ?case using lt Suc.prems(2) below
    by (subst Debye_search.simps)
       (simp add: N_DEBYE_PARAMETERS_def array_get_def Debye_tables_length Debye_X_nth)
qed

text \<open>
  At 2000 km no sample is above the altitude: the loop runs to its end and leaves
  \<open>i = 36\<close>, the last index of the tables.
\<close>

lemma Debye_search_2000: "Debye_search 2000 0 = Some 36"
  by (simp add: Debye_search.simps N_DEBYE_PARAMETERS_def array_get_def Debye_X_def)

lemma Debye_interp_2000: "Debye_interp 2000 = None"
  by (simp add: Debye_interp_def Debye_search_2000 array_get_def Debye_tables_length)

lemma Debye_interp_segment:
  assumes "200 \<le> alt" "alt < 2000"
  shows "Debye_interp alt = Some (Debye_table_interpolation alt)"
proof -
  define k where "k = nat \<lfloor>(alt - 200) / 50\<rfloor>"
  have nn: "0 \<le> (alt - 200) / 50" using assms by simp
  then have fl: "0 \<le> \<lfloor>(alt - 200) / 50\<rfloor>" by simp
  have rk: "real k = of_int \<lfloor>(alt - 200) / 50\<rfloor>" using fl by (simp add: k_def)
  have lo: "real k \<le> (alt - 200) / 50" unfolding rk by (rule of_int_floor_le)
  have hi: "(alt - 200) / 50 < real k + 1" unfolding rk by linarith
  have "real k < 36" using lo assms by simp
  then have k36: "k < 36" by simp
  have s: "Debye_search alt 0 = Some k"
    using lo hi k36 by (intro Debye_search_segment) (simp_all add: field_simps)
  show ?thesis
    using k36
    by (simp add: Debye_interp_def s array_get_def Debye_tables_length
          Debye_table_interpolation_def k_def [symmetric] Let_def)
qed

text \<open>
  C3. Every read of the tables \<open>X\<close> and \<open>Y\<close> should stay inside their 37 entries for
  every accepted altitude. The code does not keep this: at \<open>alt = 2000\<close>, and at every
  altitude clamped to 2000 such as 2500, the search ends with \<open>i = 36\<close> and the
  interpolation reads \<open>X[37]\<close> and \<open>Y[37]\<close>, one element behind the tables.
\<close>

theorem Debye_reads_out_of_bounds:
  "Debye_search 2000 0 = Some 36 \<and> array_get Debye_X (36 + 1) = None
   \<and> array_get Debye_Y (36 + 1) = None
   \<and> Debye 2000 = Inl OutOfBounds \<and> Debye 2500 = Inl OutOfBounds"
  by (simp add: Debye_search_2000 array_get_def Debye_tables_length Debye_def Debye_interp_2000)

text \<open>
  C10. What \<open>Debye\<close> returns at every altitude: the NaN sentinel exactly below 200 and
  above 35000; the line \<open>0.1 * alt - 2999.7\<close> on \<open>30000 < alt \<le> 35000\<close>; the
  piecewise-linear interpolation of the table on \<open>200 \<le> alt < 2000\<close>. On
  \<open>2000 \<le> alt \<le> 30000\<close>, where the flat table value at 2000 km is meant, the code
  reads behind the tables and has no defined result.
\<close>

theorem Debye_cases:
  "Debye alt =
     (if alt < 200 \<or> 35000 < alt then Inr NaN
      else if 30000 < alt then Inr (Val (0.1 * alt - 2999.7))
      else if 2000 \<le> alt then Inl OutOfBounds
      else Inr (Val (Debye_table_interpolation alt)))"
proof -
  consider "alt < 200 \<or> 35000 < alt" | "30000 < alt" "alt \<le> 35000"
    | "2000 < alt" "alt \<le> 30000" | "alt = 2000" | "200 \<le> alt" "alt < 2000"
    by linarith
  then show ?thesis
  proof cases
    case 1 then show ?thesis by (auto simp: Debye_def)
  next
    case 2 then show ?thesis by (simp add: Debye_def)
  next
    case 3 then show ?thesis by (simp add: Debye_def Debye_interp_2000)
  next
    case 4 then show ?thesis by (simp add: Debye_def Debye_interp_2000)
  next
    case 5 then show ?thesis by (simp add: Debye_def Debye_interp_segment)
  qed
qed

section \<open>Zonal harmonics\<close>

lemma JPerturb_2: "norm_v3 rvec \<noteq> 0 \<Longrightarrow> JPerturb k rvec 2 = Val (zonal_term k rvec 2)"
  by (cases rvec) (simp add: JPerturb_def zonal_term_def Let_def set3_def)

lemma JPerturb_step:
  assumes "norm_v3 rvec \<noteq> 0" "3 \<le> n" "n \<le> 6"
  shows "\<exists>prev. JPerturb k rvec (n - 1) = Val prev
            \<and> JPerturb k rvec n = Val (add_v3 prev (zonal_term k rvec n))"
proof -
  from assms consider "n = 3" | "n = 4" | "n = 5" | "n = 6" by linarith
  then show ?thesis
  proof cases
    case 1 with assms(1) show ?thesis
      by (cases rvec) (simp add: JPerturb_def zonal_term_def Let_def set3_def)
  next
    case 2 with assms(1) show ?thesis
      by (cases rvec) (simp add: JPerturb_def zonal_term_def Let_def set3_def)
  next
    case 3 with assms(1) show ?thesis
      by (cases rvec) (simp add: JPerturb_def zonal_term_def Let_def set3_def)
  next
    case 4 with assms(1) show ?thesis
      by (cases rvec) (simp add: JPerturb_def zonal_term_def Let_def set3_def)
  qed
qed

text \<open>
  C4. For a position of nonzero norm, \<open>JPerturb\<close> writes the NaN-filled vector exactly
  when \<open>num < 2\<close> or \<open>num > 6\<close>; with \<open>num = 2\<close> the result is the J2 term alone; and
  for each \<open>num\<close> from 3 to 6 the result is the result for \<open>num - 1\<close> plus the one zonal
  term of degree \<open>num\<close>.
\<close>

theorem JPerturb_degrees:
  assumes "norm_v3 rvec \<noteq> 0"
  shows "(JPerturb k rvec num = NaN \<longleftrightarrow> num < 2 \<or> num > 6)
       \<and> JPerturb k rvec 2 = Val (zonal_term k rvec 2)
       \<and> (3 \<le> num \<and> num \<le> 6 \<longrightarrow>
            (\<exists>prev. JPerturb k rvec (num - 1) = Val prev
               \<and> JPerturb k rvec num = Val (add_v3 prev (zonal_term k rvec num))))"
proof -
  have "JPerturb k rvec num = NaN \<longleftrightarrow> num < 2 \<or> num > 6"
    using assms by (simp add: JPerturb_def Let_def)
  then show ?thesis using JPerturb_2 [OF assms] JPerturb_step [OF assms] by blast
qed


theorem JPerturb_degrees_witness:
  "norm_v3 (1, 0, 0) \<noteq> 0
   \<and> JPerturb \<lparr>MU_EARTH = 1, REQ_EARTH = 1, J2_EARTH = 1, J3_EARTH = 1, J4_EARTH = 1,
               J5_EARTH = 1, J6_EARTH = 1\<rparr> (1, 0, 0) 7 = NaN
   \<and> JPerturb \<lparr>MU_EARTH = 1, REQ_EARTH = 1, J2_EARTH = 1, J3_EARTH = 1, J4_EARTH = 1,
               J5_EARTH = 1, J6_EARTH = 1\<rparr> (1, 0, 0) 2 = Val (- 3 / 2, 0, 0)
   \<and> JPerturb \<lparr>MU_EARTH = 1, REQ_EARTH = 1, J2_EARTH = 1, J3_EARTH = 1, J4_EARTH = 1,
               J5_EARTH = 1, J6_EARTH = 1\<rparr> (1, 0, 0) 3 = Val (- 3 / 2, 0, 3 / 2)"
proof -
  let ?k = "\<lparr>MU_EARTH = 1, REQ_EARTH = 1, J2_EARTH = 1, J3_EARTH = 1, J4_EARTH = 1,
               J5_EARTH = 1, J6_EARTH = 1\<rparr>"
  have n: "norm_v3 (1, 0, 0) \<noteq> 0" by simp
  have z2: "zonal_term ?k (1, 0, 0) 2 = (- 3 / 2, 0, 0)" by (simp add: zonal_term_def)
  have z3: "zonal_term ?k (1, 0, 0) 3 = (0, 0, 3 / 2)" by (simp add: zonal_term_def)
  show ?thesis
    using n JPerturb_degrees [OF n, of ?k 7] JPerturb_degrees [OF n, of ?k 3]
    by (auto simp: z2 z3)
qed

section \<open>Atmospheric drag\<close>

lemma norm_v3_mult: "norm_v3 (mult_v3 c v) = \<bar>c\<bar> * norm_v3 v"
proof (cases v)
  case (fields x y z)
  have "(c * x) * (c * x) + (c * y) * (c * y) + (c * z) * (c * z) = c\<^sup>2 * (x * x + y * y + z * z)"
    by (simp add: power2_eq_square algebra_simps)
  then show ?thesis using fields by (simp add: real_sqrt_mult)
qed

lemma norm_v3_nonneg: "0 \<le> norm_v3 v"
  by (cases v) simp

lemma AtmosphericDensity_pos: "0 < AtmosphericDensity alt"
  by (simp add: AtmosphericDensity_def Let_def)

lemma drag_magnitude:
  fixes D w v :: real
  assumes "0 < D" "0 < w" "0 < v"
  shows "((- 0.5) * D * w * ((v * 1000) ^ 2)) / 1000 / v < 0"
    and "\<bar>((- 0.5) * D * w * ((v * 1000) ^ 2)) / 1000 / v\<bar> * v
          = 1 / 2 * D * w * (1000 * v) ^ 2 / 1000"
proof -
  define Y where "Y = D * w * ((v * 1000) ^ 2) / (2000 * v)"
  have P: "0 < D * w * ((v * 1000) ^ 2)" using assms by simp
  have eq: "((- 0.5) * D * w * ((v * 1000) ^ 2)) / 1000 / v = - Y"
    unfolding Y_def by simp
  have pos: "0 < Y"
    unfolding Y_def using P assms(3) by (intro divide_pos_pos) simp_all
  show "((- 0.5) * D * w * ((v * 1000) ^ 2)) / 1000 / v < 0"
    unfolding eq using pos by linarith
  have "\<bar>- Y\<bar> * v = Y * v" using pos by simp
  also have "Y * v = 1 / 2 * D * w * (1000 * v) ^ 2 / 1000"
    unfolding Y_def using assms(3) by (simp add: power2_eq_square)
  finally show "\<bar>((- 0.5) * D * w * ((v * 1000) ^ 2)) / 1000 / v\<bar> * v
          = 1 / 2 * D * w * (1000 * v) ^ 2 / 1000"
    unfolding eq .
qed

text \<open>
  C5. For positive \<open>Cd\<close>, \<open>A\<close>, \<open>m\<close> and a nonzero velocity, \<open>AtmosphericDrag\<close> writes the
  NaN-filled vector exactly when the altitude \<open>norm rvec - REQ_EARTH\<close> is not positive;
  otherwise it writes a negative multiple of the velocity whose norm is
  \<open>1/2 * rho * (Cd * A / m) * (1000 * v)^2 / 1000\<close>, with \<open>rho\<close> the atmospheric density
  at that altitude and \<open>v\<close> the norm of the velocity.
\<close>

theorem AtmosphericDrag_opposes_velocity:
  assumes "0 < Cd" "0 < A" "0 < m" "norm_v3 vvec \<noteq> 0"
  shows "(AtmosphericDrag k Cd A m rvec vvec = NaN \<longleftrightarrow> norm_v3 rvec - REQ_EARTH k \<le> 0)
       \<and> (0 < norm_v3 rvec - REQ_EARTH k \<longrightarrow>
            (\<exists>c < 0. AtmosphericDrag k Cd A m rvec vvec = Val (mult_v3 c vvec)
               \<and> norm_v3 (mult_v3 c vvec)
                   = 1 / 2 * AtmosphericDensity (norm_v3 rvec - REQ_EARTH k) * (Cd * A / m)
                     * (1000 * norm_v3 vvec) ^ 2 / 1000))"
proof -
  let ?alt = "norm_v3 rvec - REQ_EARTH k"
  let ?v = "norm_v3 vvec"
  let ?ad = "((- 0.5) * AtmosphericDensity ?alt * (Cd * A / m) * ((?v * 1000) ^ 2)) / 1000"
  have vpos: "0 < ?v" using assms(4) norm_v3_nonneg [of vvec] by linarith
  have wpos: "0 < Cd * A / m" using assms by simp
  have nan: "AtmosphericDrag k Cd A m rvec vvec = NaN \<longleftrightarrow> ?alt \<le> 0"
    using assms by (simp add: AtmosphericDrag_def Let_def)
  have val: "AtmosphericDrag k Cd A m rvec vvec = Val (mult_v3 (?ad / ?v) vvec)" if "0 < ?alt"
  proof -
    have a: "\<not> ?alt \<le> 0" using that by simp
    have b: "m \<noteq> 0" "?v \<noteq> 0" using assms by simp_all
    show ?thesis unfolding AtmosphericDrag_def Let_def by (simp only: a b if_False)
  qed
  note dm = drag_magnitude [OF AtmosphericDensity_pos [of ?alt] wpos vpos]
  have mag: "norm_v3 (mult_v3 (?ad / ?v) vvec)
      = 1 / 2 * AtmosphericDensity ?alt * (Cd * A / m) * (1000 * ?v) ^ 2 / 1000"
    unfolding norm_v3_mult by (rule dm(2))
  show ?thesis using nan val dm(1) mag by blast
qed

theorem AtmosphericDrag_opposes_velocity_witness:
  "(0::real) < 2 \<and> (0::real) < 3 \<and> (0::real) < 5 \<and> norm_v3 (0, 1, 0) \<noteq> 0
   \<and> AtmosphericDrag \<lparr>MU_EARTH = 398600, REQ_EARTH = 6378, J2_EARTH = 0, J3_EARTH = 0,
        J4_EARTH = 0, J5_EARTH = 0, J6_EARTH = 0\<rparr> 2 3 5 (1000, 0, 0) (0, 1, 0) = NaN
   \<and> AtmosphericDrag \<lparr>MU_EARTH = 398600, REQ_EARTH = 6378, J2_EARTH = 0, J3_EARTH = 0,
        J4_EARTH = 0, J5_EARTH = 0, J6_EARTH = 0\<rparr> 2 3 5 (7000, 0, 0) (0, 1, 0) \<noteq> NaN"
proof -
  let ?k = "\<lparr>MU_EARTH = 398600, REQ_EARTH = 6378, J2_EARTH = 0, J3_EARTH = 0,
        J4_EARTH = 0, J5_EARTH = 0, J6_EARTH = 0\<rparr>"
  have h: "(0::real) < 2" "(0::real) < 3" "(0::real) < 5" "norm_v3 (0, 1, 0) \<noteq> 0"
    by simp_all
  show ?thesis
    using h AtmosphericDrag_opposes_velocity [OF h, of ?k "(1000, 0, 0)"]
      AtmosphericDrag_opposes_velocity [OF h, of ?k "(7000, 0, 0)"]
    by simp
qed

section \<open>The closed form of elem2rv\<close>

lemma rot313_plane:
  "rot313 AN i th (x, y, 0) =
     (x * (cos AN * cos th - sin AN * sin th * cos i)
        + y * (- cos AN * sin th - sin AN * cos th * cos i),
      x * (sin AN * cos th + cos AN * sin th * cos i)
        + y * (- sin AN * sin th + cos AN * cos th * cos i),
      x * (sin th * sin i) + y * (cos th * sin i))"
  by (simp add: rot313_def algebra_simps)

text \<open>
  C8. For \<open>mu > 0\<close> and an element set outside the rectilinear elliptic regime (not both
  \<open>e = 1\<close> and \<open>a > 0\<close>), \<open>elem2rv\<close> takes the semi-latus rectum \<open>p = 2 * (-a)\<close> when \<open>e = 1\<close>
  and \<open>a < 0\<close>, and \<open>p = a * (1 - e^2)\<close> otherwise; with \<open>r = p / (1 + e * cos f)\<close>,
  \<open>theta = omega + f\<close> and \<open>h = sqrt (mu * p)\<close> the position is the 3-1-3 rotation (node,
  inclination, \<open>theta\<close>) of \<open>(r, 0, 0)\<close> and the velocity is the rotation (node,
  inclination) of the in-plane vector with the components
  \<open>- mu / h * (sin theta + e * sin omega)\<close> and \<open>mu / h * (cos theta + e * cos omega)\<close>. The
  quotients have a real value when \<open>1 + e * cos f\<close> is not zero and \<open>p\<close> is positive.
\<close>

theorem elem2rv_closed_form:
  assumes "0 < mu" "\<not> (elem_e E = 1 \<and> 0 < elem_a E)" "elem_anom E = Some f"
  shows "elem2rv mu E =
     (let a = elem_a E;
          e = elem_e E;
          p = (if e = 1 \<and> a < 0 then 2 * (- a) else a * (1 - e\<^sup>2));
          r = p / (1 + e * cos f);
          theta = elem_omega E + f;
          h = sqrt (mu * p)
      in if 1 + e * cos f = 0 \<or> p \<le> 0 then NonReal
         else Val (rot313 (elem_Omega E) (elem_i E) theta (r, 0, 0),
                   rot313 (elem_Omega E) (elem_i E) 0
                     (- (mu / h) * (sin theta + e * sin (elem_omega E)),
                      (mu / h) * (cos theta + e * cos (elem_omega E)),
                      0)))"
proof -
  define p where "p = (if elem_e E = 1 \<and> elem_a E < 0 then 2 * (- elem_a E)
                       else elem_a E * (1 - (elem_e E)\<^sup>2))"
  have p_src: "(if elem_e E = 1 \<and> elem_a E < 0 then 2 * - elem_a E
                else elem_a E * (1 - elem_e E * elem_e E)) = p"
    by (simp add: p_def power2_eq_square)
  have sq: "dsqrt (mu * p) = (if p < 0 then None else Some (sqrt (mu * p)))"
    using assms(1) by (simp add: dsqrt_def mult_less_0_iff)
  have h0: "sqrt (mu * p) = 0 \<longleftrightarrow> p = 0" using assms(1) by simp
  have branch: "\<not> (elem_e E = 1 \<and> elem_a E > 0)" using assms(2) by simp
  show ?thesis
    unfolding elem2rv_def Let_def p_src p_def [symmetric] assms(3) option.case
    apply (simp only: branch if_False)
    apply (cases "1 + elem_e E * cos f = 0")
     apply (simp add: fp_of_def ddiv_def)
    apply (cases "p < 0")
     apply (simp add: fp_of_def ddiv_def sq)
    apply (cases "p = 0")
     apply (simp add: fp_of_def ddiv_def dsqrt_def)
    apply (insert assms(1))
    apply (simp add: fp_of_def ddiv_def sq h0 rot313_plane)
    apply (simp add: algebra_simps add_divide_distrib diff_divide_distrib)
    done
qed

theorem elem2rv_closed_form_witness:
  "(0::real) < 1
   \<and> elem2rv 1 \<lparr>elem_a = 1, elem_e = 0, elem_i = 0, elem_Omega = 0, elem_omega = 0,
                   elem_anom = Some 0\<rparr> = Val ((1, 0, 0), (0, 1, 0))
   \<and> elem2rv 1 \<lparr>elem_a = - 2, elem_e = 1, elem_i = 0, elem_Omega = 0, elem_omega = 0,
                   elem_anom = Some 0\<rparr> = Val ((2, 0, 0), (0, 1, 0))"
proof -
  let ?E = "\<lparr>elem_a = 1, elem_e = 0, elem_i = 0, elem_Omega = 0, elem_omega = 0,
                   elem_anom = Some (0::real)\<rparr>"
  let ?P = "\<lparr>elem_a = - 2, elem_e = 1, elem_i = 0, elem_Omega = 0, elem_omega = 0,
                   elem_anom = Some (0::real)\<rparr>"
  have h: "(0::real) < 1" by simp
  have s4: "sqrt 4 = 2" using real_sqrt_abs [of 2] by simp
  show ?thesis
    using elem2rv_closed_form [OF h, of ?E 0] elem2rv_closed_form [OF h, of ?P 0]
    by (simp add: rot313_def Let_def s4)
qed


section \<open>Semi-major axis and eccentricity from position and velocity\<close>

lemma norm_v3_eq_0: "norm_v3 (x, y, z) = 0 \<longleftrightarrow> x = 0 \<and> y = 0 \<and> z = 0"
proof -
  have "x * x + y * y + z * z = 0 \<longleftrightarrow> x = 0 \<and> y = 0 \<and> z = 0"
    by (simp add: add_nonneg_eq_0_iff)
  moreover have "0 \<le> x * x + y * y + z * z" by simp
  ultimately show ?thesis by simp
qed

lemma comp3_le_norm: "\<bar>comp3 v\<bar> \<le> norm_v3 v"
proof (cases v)
  case (fields x y z)
  have "\<bar>z\<bar> = sqrt (z * z)" by simp
  also have "\<dots> \<le> sqrt (x * x + y * y + z * z)"
    by (rule real_sqrt_le_mono) simp
  finally show ?thesis using fields by simp
qed

lemma comp3_mult: "comp3 (mult_v3 s v) = s * comp3 v"
  by (cases v) simp

lemma dacos_unit:
  assumes "norm_v3 v \<noteq> 0"
  shows "dacos (comp3 (mult_v3 (1 / norm_v3 v) v)) = Some (arccos (comp3 v / norm_v3 v))"
proof -
  have pos: "0 < norm_v3 v" using assms norm_v3_nonneg [of v] by linarith
  have "- norm_v3 v \<le> comp3 v" "comp3 v \<le> norm_v3 v"
    using comp3_le_norm [of v] by linarith+
  then have "- 1 \<le> comp3 v / norm_v3 v \<and> comp3 v / norm_v3 v \<le> 1"
    using pos by (simp add: pos_le_divide_eq pos_divide_le_eq)
  then show ?thesis by (simp add: dacos_def comp3_mult)
qed

lemma rectilinear_frame:
  assumes "norm_v3 ie \<noteq> 0" "\<not> norm_v3 (cross ie (0, 0, 1)) > norm_v3 (cross ie (0, 1, 0))"
  shows "norm_v3 (cross ie (0, 1, 0)) \<noteq> 0"
proof
  assume z: "norm_v3 (cross ie (0, 1, 0)) = 0"
  obtain x y w where ie: "ie = (x, y, w)" by (cases ie)
  from z have "norm_v3 (cross ie (0, 0, 1)) \<le> 0" using assms(2) by simp
  then have z2: "norm_v3 (cross ie (0, 0, 1)) = 0" using norm_v3_nonneg [of "cross ie (0, 0, 1)"] by linarith
  from z z2 have "x = 0 \<and> y = 0 \<and> w = 0" by (simp add: ie norm_v3_eq_0)
  then show False using assms(1) by (simp add: ie)
qed

lemma rv2elem_energy:
  assumes "mu \<noteq> 0" "norm_v3 rVec \<noteq> 0"
  shows "\<exists>el. rv2elem mu rVec vVec = Val el
           \<and> (let r = norm_v3 rVec;
                   hVec = cross rVec vVec;
                   cVec = add_v3 (cross vVec hVec) (mult_v3 (- mu / r) rVec);
                   ai = 2 / r - dot vVec vVec / mu
               in elem_a el = (if \<bar>ai\<bar> > 1 / 10 ^ 12 then 1 / ai
                               else - ((norm_v3 hVec)\<^sup>2 / (2 * mu)))
                \<and> elem_e el = (if \<bar>ai\<bar> > 1 / 10 ^ 12 then norm_v3 cVec / mu else 1))"
proof -
  let ?r = "norm_v3 rVec"
  let ?ir = "mult_v3 (1 / ?r) rVec"
  have ir: "norm_v3 ?ir \<noteq> 0" using assms(2) by (simp add: norm_v3_mult)
  let ?ih0 = "cross ?ir (0, 0, 1)"
  let ?ip0 = "cross ?ir (0, 1, 0)"
  have A: "dacos (comp3 (mult_v3 (1 / norm_v3 ?ih0) ?ih0)) = Some (arccos (comp3 ?ih0 / norm_v3 ?ih0))"
    if "norm_v3 ?ih0 > norm_v3 ?ip0"
    using that norm_v3_nonneg [of ?ip0] by (intro dacos_unit) linarith
  have B: "norm_v3 ?ip0 \<noteq> 0" if "\<not> norm_v3 ?ih0 > norm_v3 ?ip0"
    using rectilinear_frame [OF ir that] .
  have C: "dacos (comp3 (mult_v3 (1 / norm_v3 ?ip0) ?ip0)) = Some (arccos (comp3 ?ip0 / norm_v3 ?ip0))"
    if "\<not> norm_v3 ?ih0 > norm_v3 ?ip0"
    using B [OF that] by (rule dacos_unit)
  let ?h = "cross rVec vVec"
  have D: "dacos (comp3 (mult_v3 (1 / norm_v3 ?h) ?h)) = Some (arccos (comp3 ?h / norm_v3 ?h))"
    if "\<not> norm_v3 ?h < 1 / 10 ^ 12"
    using that by (intro dacos_unit) auto
  show ?thesis
    using assms
    unfolding rv2elem_def Let_def equal_v3_def set3_def
    apply (simp only: de_Morgan_disj simp_thms if_False)
    apply (cases "norm_v3 ?h < 1 / 10 ^ 12")
    subgoal
      apply (cases "norm_v3 ?ih0 > norm_v3 ?ip0")
       apply (simp add: A fp_of_def split: if_splits)
       apply (auto simp: power2_eq_square split: option.splits)[1]
       apply (simp add: B C ddiv_def fp_of_def split: if_splits)
       apply (auto simp: power2_eq_square split: option.splits)[1]
      done
    subgoal
      apply (simp add: D fp_of_def split: if_splits)
       apply (auto simp: power2_eq_square split: option.splits)[1]
      done
    done
qed

text \<open>
  C9. For \<open>mu > 0\<close> and a position of positive norm \<open>r\<close>, \<open>rv2elem\<close> returns an element
  set; with \<open>ai = 2 / r - v^2 / mu\<close> its field \<open>a\<close> is \<open>1 / ai\<close> when \<open>|ai| > 1e-12\<close>;
  otherwise the orbit is taken as parabolic, \<open>a\<close> is \<open>- rp\<close> with \<open>rp = h^2 / (2 * mu)\<close>,
  \<open>h\<close> the norm of the angular momentum, and the field \<open>e\<close> is exactly 1 whatever the
  norm of the eccentricity vector.
\<close>

theorem rv2elem_semi_major_axis:
  assumes "0 < mu" "0 < norm_v3 rVec"
  shows "\<exists>el. rv2elem mu rVec vVec = Val el
           \<and> (let r = norm_v3 rVec;
                   hVec = cross rVec vVec;
                   h = norm_v3 hVec;
                   cVec = add_v3 (cross vVec hVec) (mult_v3 (- mu / r) rVec);
                   ai = 2 / r - dot vVec vVec / mu;
                   rp = h\<^sup>2 / (2 * mu)
               in if \<bar>ai\<bar> > 1 / 10 ^ 12
                  then elem_a el = 1 / ai \<and> elem_e el = norm_v3 cVec / mu
                  else elem_a el = - rp \<and> elem_e el = 1)"
proof -
  have "mu \<noteq> 0" "norm_v3 rVec \<noteq> 0" using assms by simp_all
  from rv2elem_energy [OF this, of vVec] show ?thesis
    by (auto simp: Let_def)
qed

theorem rv2elem_semi_major_axis_witness:
  "(0::real) < 1 \<and> 0 < norm_v3 (1, 0, 0)
   \<and> (\<exists>el. rv2elem 1 (1, 0, 0) (0, 1, 0) = Val el \<and> elem_a el = 1 \<and> elem_e el = 0)
   \<and> (\<exists>el. rv2elem 1 (2, 0, 0) (0, 1, 0) = Val el \<and> elem_a el = - 2 \<and> elem_e el = 1)"
proof -
  have h: "(0::real) < 1" "0 < norm_v3 (1, 0, 0)" "0 < norm_v3 (2, 0, 0)" by simp_all
  show ?thesis
    using h rv2elem_semi_major_axis [OF h(1) h(2), of "(0, 1, 0)"]
      rv2elem_semi_major_axis [OF h(1) h(3), of "(0, 1, 0)"]
    by (simp add: Let_def)
qed

section \<open>Bounds on pi and on the elementary functions\<close>

lemma arctan_le_arg:
  fixes x :: real
  assumes "0 \<le> x"
  shows "arctan x \<le> x"
proof -
  let ?g = "\<lambda>u::real. u - arctan u"
  have "\<exists>y. (?g has_real_derivative y) (at u) \<and> 0 \<le> y" for u :: real
  proof -
    have "(?g has_real_derivative 1 - inverse (1 + u\<^sup>2)) (at u)"
      by (auto intro!: derivative_eq_intros simp: field_simps)
    moreover have "inverse (1 + u\<^sup>2) \<le> 1"
      by (simp add: inverse_le_1_iff)
    ultimately show ?thesis by (intro exI [of _ "1 - inverse (1 + u\<^sup>2)"]) simp
  qed
  then have "?g 0 \<le> ?g x"
    by (intro DERIV_nonneg_imp_nondecreasing [OF assms]) blast
  then show ?thesis by simp
qed

lemma pi_ge_3: "3 \<le> pi"
proof -
  have "sin (pi / 6) \<le> pi / 6" by (rule sin_x_le_x) simp
  then show ?thesis by (simp add: sin_30)
qed

lemma pi_le_16_5: "pi \<le> 16 / 5"
proof -
  have "arctan (1 / 5) \<le> (1 / 5 :: real)" by (rule arctan_le_arg) simp
  moreover have "0 \<le> arctan (1 / 239 :: real)" by simp
  ultimately have "4 * arctan (1 / 5) - arctan (1 / 239) \<le> (4 / 5 :: real)" by linarith
  then show ?thesis using machin by linarith
qed







section \<open>The two-argument arctangent\<close>

lemma atan2_polar:
  assumes "0 < \<rho>" "- pi < \<theta>" "\<theta> \<le> pi"
  shows "atan2 (\<rho> * sin \<theta>) (\<rho> * cos \<theta>) = \<theta>"
proof -
  have ratio: "\<rho> * sin \<theta> / (\<rho> * cos \<theta>) = tan \<theta>"
    using assms(1) by (simp add: tan_def)
  consider "- (pi / 2) < \<theta>" "\<theta> < pi / 2" | "\<theta> = pi / 2" | "\<theta> = - (pi / 2)"
    | "pi / 2 < \<theta>" | "\<theta> < - (pi / 2)"
    by linarith
  then show ?thesis
  proof cases
    case 1
    then have "0 < cos \<theta>" by (rule cos_gt_zero_pi)
    then have "0 < \<rho> * cos \<theta>" using assms(1) by simp
    then have "atan2 (\<rho> * sin \<theta>) (\<rho> * cos \<theta>) = arctan (\<rho> * sin \<theta> / (\<rho> * cos \<theta>))"
      by (simp only: atan2_def if_True)
    also have "\<dots> = arctan (tan \<theta>)" by (simp only: ratio)
    also have "\<dots> = \<theta>" using 1 by (rule arctan_tan)
    finally show ?thesis .
  next
    case 2
    show ?thesis unfolding 2 using assms(1) by (simp add: atan2_def)
  next
    case 3
    show ?thesis unfolding 3 using assms(1) by (simp add: atan2_def)
  next
    case 4
    have "0 < cos (\<theta> - pi)" using 4 assms(3) by (intro cos_gt_zero_pi) linarith+
    then have c: "cos \<theta> < 0" by simp
    have "sin (\<theta> - pi) \<le> 0"
    proof -
      have "0 \<le> sin (pi - \<theta>)" using 4 assms(3) by (intro sin_ge_zero) linarith+
      then show ?thesis by simp
    qed
    then have s: "0 \<le> sin \<theta>" by simp
    have "tan \<theta> = tan (\<theta> - pi)" using tan_periodic_pi [of "\<theta> - pi"] by simp
    also have "arctan (tan (\<theta> - pi)) = \<theta> - pi"
      using 4 assms(3) by (intro arctan_tan) linarith+
    finally have at: "arctan (tan \<theta>) = \<theta> - pi" .
    have x: "\<rho> * cos \<theta> < 0" using c assms(1) by (simp add: mult_pos_neg)
    then have nx: "\<not> 0 < \<rho> * cos \<theta>" by simp
    have y: "0 \<le> \<rho> * sin \<theta>" using s assms(1) by simp
    have "atan2 (\<rho> * sin \<theta>) (\<rho> * cos \<theta>) = arctan (\<rho> * sin \<theta> / (\<rho> * cos \<theta>)) + pi"
      by (simp only: atan2_def nx x y if_True if_False)
    also have "\<dots> = \<theta>" unfolding ratio at by simp
    finally show ?thesis .
  next
    case 5
    have "0 < cos (\<theta> + pi)" using 5 assms(2) by (intro cos_gt_zero_pi) linarith+
    then have c: "cos \<theta> < 0" by simp
    have "0 < sin (\<theta> + pi)" using 5 assms(2) by (intro sin_gt_zero) linarith+
    then have s: "sin \<theta> < 0" by simp
    have "tan \<theta> = tan (\<theta> + pi)" by simp
    also have "arctan (tan (\<theta> + pi)) = \<theta> + pi"
      using 5 assms(2) by (intro arctan_tan) linarith+
    finally have at: "arctan (tan \<theta>) = \<theta> + pi" .
    have x: "\<rho> * cos \<theta> < 0" using c assms(1) by (simp add: mult_pos_neg)
    then have nx: "\<not> 0 < \<rho> * cos \<theta>" by simp
    have "\<rho> * sin \<theta> < 0" using s assms(1) by (simp add: mult_pos_neg)
    then have y: "\<not> 0 \<le> \<rho> * sin \<theta>" by simp
    have "atan2 (\<rho> * sin \<theta>) (\<rho> * cos \<theta>) = arctan (\<rho> * sin \<theta> / (\<rho> * cos \<theta>)) - pi"
      by (simp only: atan2_def nx x y if_True if_False)
    also have "\<dots> = \<theta>" unfolding ratio at by simp
    finally show ?thesis .
  qed
qed


lemma atan2_sin_cos: "\<exists>k::int. atan2 (sin f) (cos f) = f + 2 * pi * of_int k"
proof -
  obtain \<theta> where th: "- pi < \<theta>" "\<theta> \<le> pi" "sin \<theta> = sin f" "cos \<theta> = cos f"
    using sincos_principal_value [of f] by blast
  have "atan2 (1 * sin \<theta>) (1 * cos \<theta>) = \<theta>" using th by (intro atan2_polar) simp_all
  then have "atan2 (sin f) (cos f) = \<theta>" using th by simp
  moreover obtain k :: int where "\<theta> = f + 2 * pi * of_int k"
    using th sin_cos_eq_iff [of \<theta> f] by blast
  ultimately show ?thesis by blast
qed

section \<open>Eccentric and true anomaly\<close>



section \<open>The round trip in double precision\<close>














section \<open>The Newton-Raphson loops\<close>

text \<open>
  A loop entered with \<open>|dE| > small\<close> and \<open>count \<le> 200\<close> makes \<open>m \<ge> 1\<close> passes and ends with
  \<open>count + m \<le> 201\<close>: each pass applies the Newton update once; every pass but the last
  computed a correction above \<open>small\<close>; the last one either reached \<open>count = 201\<close>, where
  the correction is overwritten with zero, or computed a correction of at most \<open>small\<close>.
\<close>

lemma M2E_loop_passes:
  assumes "\<bar>dE\<bar> > 1 / 10 ^ 13" "count \<le> 200"
  shows "\<exists>m d. 1 \<le> m \<and> count + m \<le> 201
           \<and> M2E_loop M e (E1, dE, count) = ((M2E_newton M e ^^ m) E1, d, count + m)
           \<and> (\<forall>j. j + 1 < m \<longrightarrow> \<bar>M2E_delta M e ((M2E_newton M e ^^ j) E1)\<bar> > 1 / 10 ^ 13)
           \<and> (count + m = 201 \<and> d = 0
                \<or> d = M2E_delta M e ((M2E_newton M e ^^ (m - 1)) E1) \<and> \<bar>d\<bar> \<le> 1 / 10 ^ 13)"
  using assms
proof (induction "200 - count" arbitrary: E1 dE count)
  case 0
  then have c: "count = 200" by simp
  have "M2E_loop M e (E1, dE, count) = (M2E_newton M e E1, 0, 201)"
    using 0(2) c
    by (subst M2E_loop.simps, subst M2E_loop.simps)
       (simp add: Let_def M2E_newton_def M2E_delta_def)
  then show ?case using c by (intro exI [of _ 1] exI [of _ 0]) simp
next
  case (Suc k)
  then have c: "count < 200" by simp
  let ?d = "M2E_delta M e E1"
  let ?E = "M2E_newton M e E1"
  have unfold: "M2E_loop M e (E1, dE, count) = M2E_loop M e (?E, ?d, count + 1)"
    using Suc.prems(1) c
    by (subst M2E_loop.simps) (simp add: Let_def M2E_newton_def M2E_delta_def)
  show ?case
  proof (cases "\<bar>?d\<bar> > 1 / 10 ^ 13")
    case False
    then have "M2E_loop M e (?E, ?d, count + 1) = (?E, ?d, count + 1)"
      by (subst M2E_loop.simps) simp
    with unfold False c show ?thesis
      by (intro exI [of _ 1] exI [of _ ?d]) simp
  next
    case True
    have k: "k = 200 - (count + 1)" using Suc.hyps(2) by simp
    have "count + 1 \<le> 200" using c by simp
    from Suc.hyps(1) [OF k True this]
    obtain m d where m: "1 \<le> m" "count + 1 + m \<le> 201"
      "M2E_loop M e (?E, ?d, count + 1) = ((M2E_newton M e ^^ m) ?E, d, count + 1 + m)"
      "\<forall>j. j + 1 < m \<longrightarrow> \<bar>M2E_delta M e ((M2E_newton M e ^^ j) ?E)\<bar> > 1 / 10 ^ 13"
      "count + 1 + m = 201 \<and> d = 0
         \<or> d = M2E_delta M e ((M2E_newton M e ^^ (m - 1)) ?E) \<and> \<bar>d\<bar> \<le> 1 / 10 ^ 13"
      by blast
    have pw: "(M2E_newton M e ^^ Suc j) E1 = (M2E_newton M e ^^ j) ?E" for j
      by (simp only: funpow_Suc_right o_apply)
    have all: "\<bar>M2E_delta M e ((M2E_newton M e ^^ j) E1)\<bar> > 1 / 10 ^ 13" if "j + 1 < Suc m" for j
    proof (cases j)
      case 0 then show ?thesis using True by simp
    next
      case (Suc i)
      then have "i + 1 < m" using that by simp
      then have "\<bar>M2E_delta M e ((M2E_newton M e ^^ i) ?E)\<bar> > 1 / 10 ^ 13"
        using m(4) by blast
      then show ?thesis unfolding Suc pw .
    qed
    have m1: "Suc m - 1 = Suc (m - 1)" using m(1) by simp
    have last: "(M2E_newton M e ^^ (Suc m - 1)) E1 = (M2E_newton M e ^^ (m - 1)) ?E"
      unfolding m1 by (rule pw)
    have res: "M2E_loop M e (E1, dE, count) = ((M2E_newton M e ^^ Suc m) E1, d, count + Suc m)"
      unfolding unfold m(3) pw by simp
    have fin: "count + Suc m = 201 \<and> d = 0
         \<or> d = M2E_delta M e ((M2E_newton M e ^^ (Suc m - 1)) E1) \<and> \<bar>d\<bar> \<le> 1 / 10 ^ 13"
      unfolding last using m(5) by simp
    have "1 \<le> Suc m" "count + Suc m \<le> 201" using m(2) by simp_all
    with res all fin show ?thesis by blast
  qed
qed

lemma N2H_loop_passes:
  assumes "\<bar>dH\<bar> > 1 / 10 ^ 13" "count \<le> 200"
  shows "\<exists>m d. 1 \<le> m \<and> count + m \<le> 201
           \<and> N2H_loop N e (H1, dH, count) = ((N2H_newton N e ^^ m) H1, d, count + m)
           \<and> (\<forall>j. j + 1 < m \<longrightarrow> \<bar>N2H_delta N e ((N2H_newton N e ^^ j) H1)\<bar> > 1 / 10 ^ 13)
           \<and> (count + m = 201 \<and> d = 0
                \<or> d = N2H_delta N e ((N2H_newton N e ^^ (m - 1)) H1) \<and> \<bar>d\<bar> \<le> 1 / 10 ^ 13)"
  using assms
proof (induction "200 - count" arbitrary: H1 dH count)
  case 0
  then have c: "count = 200" by simp
  have "N2H_loop N e (H1, dH, count) = (N2H_newton N e H1, 0, 201)"
    using 0(2) c
    by (subst N2H_loop.simps, subst N2H_loop.simps)
       (simp add: Let_def N2H_newton_def N2H_delta_def)
  then show ?case using c by (intro exI [of _ 1] exI [of _ 0]) simp
next
  case (Suc k)
  then have c: "count < 200" by simp
  let ?d = "N2H_delta N e H1"
  let ?H = "N2H_newton N e H1"
  have unfold: "N2H_loop N e (H1, dH, count) = N2H_loop N e (?H, ?d, count + 1)"
    using Suc.prems(1) c
    by (subst N2H_loop.simps) (simp add: Let_def N2H_newton_def N2H_delta_def)
  show ?case
  proof (cases "\<bar>?d\<bar> > 1 / 10 ^ 13")
    case False
    then have "N2H_loop N e (?H, ?d, count + 1) = (?H, ?d, count + 1)"
      by (subst N2H_loop.simps) simp
    with unfold False c show ?thesis
      by (intro exI [of _ 1] exI [of _ ?d]) simp
  next
    case True
    have k: "k = 200 - (count + 1)" using Suc.hyps(2) by simp
    have "count + 1 \<le> 200" using c by simp
    from Suc.hyps(1) [OF k True this]
    obtain m d where m: "1 \<le> m" "count + 1 + m \<le> 201"
      "N2H_loop N e (?H, ?d, count + 1) = ((N2H_newton N e ^^ m) ?H, d, count + 1 + m)"
      "\<forall>j. j + 1 < m \<longrightarrow> \<bar>N2H_delta N e ((N2H_newton N e ^^ j) ?H)\<bar> > 1 / 10 ^ 13"
      "count + 1 + m = 201 \<and> d = 0
         \<or> d = N2H_delta N e ((N2H_newton N e ^^ (m - 1)) ?H) \<and> \<bar>d\<bar> \<le> 1 / 10 ^ 13"
      by blast
    have pw: "(N2H_newton N e ^^ Suc j) H1 = (N2H_newton N e ^^ j) ?H" for j
      by (simp only: funpow_Suc_right o_apply)
    have all: "\<bar>N2H_delta N e ((N2H_newton N e ^^ j) H1)\<bar> > 1 / 10 ^ 13" if "j + 1 < Suc m" for j
    proof (cases j)
      case 0 then show ?thesis using True by simp
    next
      case (Suc i)
      then have "i + 1 < m" using that by simp
      then have "\<bar>N2H_delta N e ((N2H_newton N e ^^ i) ?H)\<bar> > 1 / 10 ^ 13"
        using m(4) by blast
      then show ?thesis unfolding Suc pw .
    qed
    have m1: "Suc m - 1 = Suc (m - 1)" using m(1) by simp
    have last: "(N2H_newton N e ^^ (Suc m - 1)) H1 = (N2H_newton N e ^^ (m - 1)) ?H"
      unfolding m1 by (rule pw)
    have res: "N2H_loop N e (H1, dH, count) = ((N2H_newton N e ^^ Suc m) H1, d, count + Suc m)"
      unfolding unfold m(3) pw by simp
    have fin: "count + Suc m = 201 \<and> d = 0
         \<or> d = N2H_delta N e ((N2H_newton N e ^^ (Suc m - 1)) H1) \<and> \<bar>d\<bar> \<le> 1 / 10 ^ 13"
      unfolding last using m(5) by simp
    have "1 \<le> Suc m" "count + Suc m \<le> 201" using m(2) by simp_all
    with res all fin show ?thesis by blast
  qed
qed

text \<open>
  On the domains of \<open>M2E\<close> and \<open>N2H\<close> the quotient of the loop body never divides by
  zero, so the loops stay in the reals.
\<close>

lemma M2E_denominator_pos:
  fixes e E :: real
  assumes "0 \<le> e" "e < 1"
  shows "0 < 1 - e * cos E"
proof -
  have "e * cos E \<le> e * 1" using assms(1) by (intro mult_left_mono) simp_all
  then show ?thesis using assms(2) by linarith
qed

lemma N2H_denominator_pos:
  fixes e H :: real
  assumes "1 < e"
  shows "0 < e * cosh H - 1"
proof -
  have "1 \<le> cosh H" by (rule cosh_real_ge_1)
  then have "e * 1 \<le> e * cosh H" using assms by (intro mult_left_mono) simp_all
  then show ?thesis using assms by linarith
qed

section \<open>Hyperbolic orbits on which the cap is reached\<close>

text \<open>
  \<open>N2H\<close> at \<open>N = 700\<close> and an eccentricity \<open>1 < e \<le> 2\<close>. The loop is seeded at
  \<open>H = N = 700\<close>, far above the root of \<open>e sinh H - H = N\<close> (below 8). As long as
  \<open>H \<ge> 499\<close> the correction \<open>(e sinh H - H - N) / (e cosh H - 1)\<close> lies between \<open>1/2\<close>
  and \<open>1\<close>: each pass lowers \<open>H\<close> by at most one, so the first 201 iterates stay above
  499 and no correction comes near \<open>small\<close>.
\<close>

lemma cosh_ge_square:
  fixes H :: real
  assumes "0 \<le> H"
  shows "H\<^sup>2 / 8 \<le> cosh H"
proof -
  have "1 + H / 2 \<le> exp (H / 2)" by (rule exp_ge_add_one_self)
  then have "(1 + H / 2)\<^sup>2 \<le> (exp (H / 2))\<^sup>2" using assms by (intro power_mono) simp_all
  also have "(exp (H / 2))\<^sup>2 = exp H" by (simp add: exp_double [symmetric])
  finally have e: "(1 + H / 2)\<^sup>2 \<le> exp H" .
  have "H\<^sup>2 / 4 \<le> (1 + H / 2)\<^sup>2" using assms by (simp add: power2_eq_square algebra_simps)
  with e have q: "H\<^sup>2 / 4 \<le> exp H" by linarith
  define a where "a = exp H"
  define b where "b = exp (- H)"
  define h where "h = H\<^sup>2"
  have "0 < b" by (simp add: b_def)
  moreover have "h / 4 \<le> a" using q by (simp add: a_def h_def)
  ultimately have "h / 8 \<le> (a + b) / 2" by argo
  then show ?thesis by (simp add: cosh_def a_def b_def h_def field_simps)
qed

lemma N2H_700_correction:
  fixes e H :: real
  assumes "1 < e" "e \<le> 2" "499 \<le> H"
  shows "1 / 2 \<le> N2H_delta 700 e H" "N2H_delta 700 e H \<le> 1"
proof -
  define c where "c = cosh H"
  define E where "E = exp (- H)"
  have s: "sinh H = c - E" by (simp add: sinh_def cosh_def c_def E_def field_simps)
  have E: "0 < E" "E \<le> 1" using assms(3) by (simp_all add: E_def)
  have "499 * H \<le> H * H" using assms(3) by (intro mult_right_mono) simp_all
  then have "499 * H / 8 \<le> H\<^sup>2 / 8" by (simp add: power2_eq_square)
  also have "\<dots> \<le> c" unfolding c_def using assms(3) by (intro cosh_ge_square) simp
  finally have c: "499 * H / 8 \<le> c" .
  then have c0: "0 \<le> c" using assms(3) by linarith
  define ec where "ec = e * c"
  define eE where "eE = e * E"
  have "1 * c \<le> e * c" using assms(1) c0 by (intro mult_right_mono) simp_all
  then have ec: "c \<le> ec" by (simp add: ec_def)
  have "e * E \<le> 2 * 1" using assms(1,2) E by (intro mult_mono) simp_all
  moreover have "0 < e * E" using assms(1) E(1) by simp
  ultimately have eE: "0 < eE" "eE \<le> 2" by (simp_all add: eE_def)
  have den: "0 < ec - 1" unfolding ec_def c_def using assms(1) by (rule N2H_denominator_pos)
  have d: "N2H_delta 700 e H = (ec - eE - H - 700) / (ec - 1)"
    by (simp add: N2H_delta_def s c_def ec_def eE_def algebra_simps)
  have lo: "1 / 2 * (ec - 1) \<le> ec - eE - H - 700"
    using c ec eE assms(3) by argo
  have up: "ec - eE - H - 700 \<le> 1 * (ec - 1)"
    using eE assms(3) by argo
  show "1 / 2 \<le> N2H_delta 700 e H"
    unfolding d using lo den by (simp only: pos_le_divide_eq)
  show "N2H_delta 700 e H \<le> 1"
    unfolding d using up den by (simp only: pos_divide_le_eq)
qed

lemma N2H_700_iterates:
  assumes "1 < e" "e \<le> 2"
  shows "k \<le> 201 \<Longrightarrow> 700 - real k \<le> (N2H_newton 700 e ^^ k) 700"
proof (induction k)
  case 0
  show ?case by simp
next
  case (Suc k)
  let ?H = "(N2H_newton 700 e ^^ k) 700"
  have H: "700 - real k \<le> ?H" using Suc by simp
  then have "499 \<le> ?H" using Suc.prems by simp
  with assms have "N2H_delta 700 e ?H \<le> 1" by (rule N2H_700_correction)
  moreover have "(N2H_newton 700 e ^^ Suc k) 700 = ?H - N2H_delta 700 e ?H"
    by (simp add: N2H_newton_def)
  moreover have "real (Suc k) = real k + 1" by simp
  ultimately show ?case using H by linarith
qed

lemma N2H_700_correction_large:
  assumes "1 < e" "e \<le> 2" "k \<le> 201"
  shows "1 / 2 \<le> N2H_delta 700 e ((N2H_newton 700 e ^^ k) 700)"
proof -
  have "499 \<le> (N2H_newton 700 e ^^ k) 700"
    using N2H_700_iterates [OF assms] assms(3) by simp
  with assms(1,2) show ?thesis by (rule N2H_700_correction)
qed

text \<open>
  The loop therefore runs until the cap stops it: it makes 201 passes, each with its
  Newton update, and \<open>N2H\<close> returns the 201st iterate, which lies at least \<open>1/2\<close> below
  the 200th and is still above 499.
\<close>

lemma N2H_700_cap:
  assumes "1 < e" "e \<le> 2"
  shows "N2H_run 700 e = ((N2H_newton 700 e ^^ 201) 700, 0, 201)"
    and "N2H 700 e = Val ((N2H_newton 700 e ^^ 201) 700)"
    and "(N2H_newton 700 e ^^ 201) 700 \<le> (N2H_newton 700 e ^^ 200) 700 - 1 / 2"
    and "499 \<le> (N2H_newton 700 e ^^ 201) 700"
proof -
  have init: "\<bar>10 * (1 / 10 ^ 13) :: real\<bar> > 1 / 10 ^ 13" by simp
  from N2H_loop_passes [OF init, of 0 700 e 700]
  obtain m d where m: "1 \<le> m" "m \<le> 201"
    "N2H_run 700 e = ((N2H_newton 700 e ^^ m) 700, d, m)"
    "m = 201 \<and> d = 0
       \<or> d = N2H_delta 700 e ((N2H_newton 700 e ^^ (m - 1)) 700) \<and> \<bar>d\<bar> \<le> 1 / 10 ^ 13"
    unfolding N2H_run_def by auto
  have "1 / 2 \<le> N2H_delta 700 e ((N2H_newton 700 e ^^ (m - 1)) 700)"
    using assms m(2) by (intro N2H_700_correction_large) simp_all
  then have "\<not> (d = N2H_delta 700 e ((N2H_newton 700 e ^^ (m - 1)) 700)
         \<and> \<bar>d\<bar> \<le> 1 / 10 ^ 13)" by auto
  with m(4) have "m = 201" "d = 0" by auto
  then show run: "N2H_run 700 e = ((N2H_newton 700 e ^^ 201) 700, 0, 201)"
    using m(3) by simp
  show "N2H 700 e = Val ((N2H_newton 700 e ^^ 201) 700)"
    using assms(1) by (simp add: N2H_def run)
  have step: "(N2H_newton 700 e ^^ 201) 700
      = (N2H_newton 700 e ^^ 200) 700 - N2H_delta 700 e ((N2H_newton 700 e ^^ 200) 700)"
  proof -
    have "(201::nat) = Suc 200" by simp
    then show ?thesis by (simp only: funpow.simps o_apply N2H_newton_def)
  qed
  have "1 / 2 \<le> N2H_delta 700 e ((N2H_newton 700 e ^^ 200) 700)"
    using assms by (rule N2H_700_correction_large) simp
  with step show "(N2H_newton 700 e ^^ 201) 700 \<le> (N2H_newton 700 e ^^ 200) 700 - 1 / 2"
    by linarith
  show "499 \<le> (N2H_newton 700 e ^^ 201) 700"
    using N2H_700_iterates [OF assms, of 201] by simp
qed

text \<open>
  So it is at \<open>N2H(700, 1.5)\<close>, whose arguments are doubles, and at \<open>N2H(700, 1.1)\<close>:
  201 updates are applied. A bound of 200 updates does not hold. (On doubles every one
  of these corrections rounds to 1, and both calls return 499 after 201 updates.)
\<close>

theorem N2H_700_makes_201_passes:
  "(1::real) < 3 / 2
   \<and> N2H_run 700 (3 / 2) = ((N2H_newton 700 (3 / 2) ^^ 201) 700, 0, 201)
   \<and> N2H 700 (3 / 2) = Val ((N2H_newton 700 (3 / 2) ^^ 201) 700)
   \<and> (N2H_newton 700 (3 / 2) ^^ 201) 700 \<le> (N2H_newton 700 (3 / 2) ^^ 200) 700 - 1 / 2
   \<and> 499 \<le> (N2H_newton 700 (3 / 2) ^^ 201) 700
   \<and> (1::real) < 11 / 10
   \<and> N2H_run 700 (11 / 10) = ((N2H_newton 700 (11 / 10) ^^ 201) 700, 0, 201)
   \<and> N2H 700 (11 / 10) = Val ((N2H_newton 700 (11 / 10) ^^ 201) 700)
   \<and> (N2H_newton 700 (11 / 10) ^^ 201) 700 \<le> (N2H_newton 700 (11 / 10) ^^ 200) 700 - 1 / 2
   \<and> 499 \<le> (N2H_newton 700 (11 / 10) ^^ 201) 700"
proof -
  have a: "(1::real) < 3 / 2" "(3::real) / 2 \<le> 2" by simp_all
  have b: "(1::real) < 11 / 10" "(11::real) / 10 \<le> 2" by simp_all
  show ?thesis
    using a(1) b(1) N2H_700_cap [OF a] N2H_700_cap [OF b] by (simp only: simp_thms)
qed

text \<open>
  \<open>M2E\<close> at \<open>M = 1\<close>, \<open>e = 1/2\<close>: the first correction is at least \<open>1/6\<close> in absolute value,
  so the loop makes a second pass.
\<close>

lemma M2E_first_correction: "1 / 6 \<le> \<bar>M2E_delta 1 (1 / 2) 1\<bar>"
proof -
  have "sin (pi / 6) \<le> sin 1"
    using pi_ge_3 pi_le_16_5 by (intro sin_monotone_2pi_le) simp_all
  then have s: "1 / 2 \<le> sin (1::real)" by (simp add: sin_30)
  have c: "cos (1::real) \<le> 1" "- 1 \<le> cos (1::real)" by simp_all
  have den: "0 < 1 - 1 / 2 * cos (1::real)" "1 - 1 / 2 * cos (1::real) \<le> 3 / 2"
    using c by linarith+
  have "M2E_delta 1 (1 / 2) 1 = - ((1 / 2 * sin 1) / (1 - 1 / 2 * cos 1))"
    by (simp add: M2E_delta_def)
  then have "\<bar>M2E_delta 1 (1 / 2) 1\<bar> = (1 / 2 * sin 1) / (1 - 1 / 2 * cos 1)"
    using s den by simp
  moreover have "1 / 6 * (1 - 1 / 2 * cos 1) \<le> 1 / 2 * sin (1::real)"
    using s c by argo
  ultimately show ?thesis using den(1) by (simp only: pos_le_divide_eq)
qed

section \<open>Termination and iteration bound of M2E and N2H\<close>

text \<open>
  C2, as the code has it. For \<open>0 \<le> e < 1\<close>, \<open>M2E\<close> returns: the loop seeded at \<open>E = M\<close>
  makes \<open>n\<close> passes, \<open>1 \<le> n \<le> 201\<close>, each applying the update
  \<open>E \<leftarrow> E - (E - e sin E - M) / (1 - e cos E)\<close> once; it goes on while the correction is
  above \<open>1e-13\<close> in absolute value; the test \<open>++count > 200\<close> first succeeds in pass 201,
  which still applies its update and then stops the loop; the value returned is the
  \<open>n\<close>-th iterate, converged or not. The same holds for \<open>N2H\<close> with \<open>e > 1\<close>.
\<close>

theorem Newton_loops_at_most_201_passes:
  "(0 \<le> e \<and> e < 1 \<longrightarrow>
      (\<exists>n d. 1 \<le> n \<and> n \<le> 201
         \<and> M2E_run M e = ((M2E_newton M e ^^ n) M, d, n)
         \<and> M2E M e = Val ((M2E_newton M e ^^ n) M)
         \<and> (\<forall>j. j + 1 < n \<longrightarrow> \<bar>M2E_delta M e ((M2E_newton M e ^^ j) M)\<bar> > 1 / 10 ^ 13)
         \<and> (n = 201 \<and> d = 0
              \<or> d = M2E_delta M e ((M2E_newton M e ^^ (n - 1)) M) \<and> \<bar>d\<bar> \<le> 1 / 10 ^ 13)))
   \<and> (1 < e' \<longrightarrow>
      (\<exists>n d. 1 \<le> n \<and> n \<le> 201
         \<and> N2H_run N e' = ((N2H_newton N e' ^^ n) N, d, n)
         \<and> N2H N e' = Val ((N2H_newton N e' ^^ n) N)
         \<and> (\<forall>j. j + 1 < n \<longrightarrow> \<bar>N2H_delta N e' ((N2H_newton N e' ^^ j) N)\<bar> > 1 / 10 ^ 13)
         \<and> (n = 201 \<and> d = 0
              \<or> d = N2H_delta N e' ((N2H_newton N e' ^^ (n - 1)) N) \<and> \<bar>d\<bar> \<le> 1 / 10 ^ 13)))"
proof -
  have init: "\<bar>10 * (1 / 10 ^ 13) :: real\<bar> > 1 / 10 ^ 13" by simp
  from M2E_loop_passes [OF init, of 0 M e M]
  obtain m d where m: "1 \<le> m" "m \<le> 201"
    "M2E_run M e = ((M2E_newton M e ^^ m) M, d, m)"
    "\<forall>j. j + 1 < m \<longrightarrow> \<bar>M2E_delta M e ((M2E_newton M e ^^ j) M)\<bar> > 1 / 10 ^ 13"
    "m = 201 \<and> d = 0
       \<or> d = M2E_delta M e ((M2E_newton M e ^^ (m - 1)) M) \<and> \<bar>d\<bar> \<le> 1 / 10 ^ 13"
    unfolding M2E_run_def by auto
  from N2H_loop_passes [OF init, of 0 N e' N]
  obtain k c where k: "1 \<le> k" "k \<le> 201"
    "N2H_run N e' = ((N2H_newton N e' ^^ k) N, c, k)"
    "\<forall>j. j + 1 < k \<longrightarrow> \<bar>N2H_delta N e' ((N2H_newton N e' ^^ j) N)\<bar> > 1 / 10 ^ 13"
    "k = 201 \<and> c = 0
       \<or> c = N2H_delta N e' ((N2H_newton N e' ^^ (k - 1)) N) \<and> \<bar>c\<bar> \<le> 1 / 10 ^ 13"
    unfolding N2H_run_def by auto
  have A: "M2E M e = Val ((M2E_newton M e ^^ m) M)" if "0 \<le> e \<and> e < 1"
    using that by (simp add: M2E_def m(3))
  have B: "N2H N e' = Val ((N2H_newton N e' ^^ k) N)" if "1 < e'"
    using that by (simp add: N2H_def k(3))
  show ?thesis
  proof (intro conjI impI)
    assume "0 \<le> e \<and> e < 1"
    from A [OF this] m show "\<exists>n d. 1 \<le> n \<and> n \<le> 201
         \<and> M2E_run M e = ((M2E_newton M e ^^ n) M, d, n)
         \<and> M2E M e = Val ((M2E_newton M e ^^ n) M)
         \<and> (\<forall>j. j + 1 < n \<longrightarrow> \<bar>M2E_delta M e ((M2E_newton M e ^^ j) M)\<bar> > 1 / 10 ^ 13)
         \<and> (n = 201 \<and> d = 0
              \<or> d = M2E_delta M e ((M2E_newton M e ^^ (n - 1)) M) \<and> \<bar>d\<bar> \<le> 1 / 10 ^ 13)"
      by blast
  next
    assume "1 < e'"
    from B [OF this] k show "\<exists>n d. 1 \<le> n \<and> n \<le> 201
         \<and> N2H_run N e' = ((N2H_newton N e' ^^ n) N, d, n)
         \<and> N2H N e' = Val ((N2H_newton N e' ^^ n) N)
         \<and> (\<forall>j. j + 1 < n \<longrightarrow> \<bar>N2H_delta N e' ((N2H_newton N e' ^^ j) N)\<bar> > 1 / 10 ^ 13)
         \<and> (n = 201 \<and> d = 0
              \<or> d = N2H_delta N e' ((N2H_newton N e' ^^ (n - 1)) N) \<and> \<bar>d\<bar> \<le> 1 / 10 ^ 13)"
      by blast
  qed
qed

text \<open>
  The theorem at \<open>M2E(1, 0.5)\<close>, where the loop makes at least two passes, and at
  \<open>N2H(700, 1.5)\<close>, where it makes all 201.
\<close>

theorem Newton_loops_at_most_201_passes_witness:
  "(0::real) \<le> 1 / 2 \<and> (1::real) / 2 < 1 \<and> (1::real) < 3 / 2
   \<and> (\<exists>n. 2 \<le> n \<and> n \<le> 201 \<and> M2E 1 (1 / 2) = Val ((M2E_newton 1 (1 / 2) ^^ n) 1))
   \<and> (\<exists>d. N2H_run 700 (3 / 2) = ((N2H_newton 700 (3 / 2) ^^ 201) 700, d, 201))
   \<and> N2H 700 (3 / 2) = Val ((N2H_newton 700 (3 / 2) ^^ 201) 700)"
proof -
  have h: "(0::real) \<le> 1 / 2 \<and> (1::real) / 2 < 1" "(1::real) < 3 / 2" by simp_all
  from Newton_loops_at_most_201_passes [of "1 / 2" 1 "3 / 2" 700] h
  obtain n d k c where n: "1 \<le> n" "n \<le> 201"
      "M2E 1 (1 / 2) = Val ((M2E_newton 1 (1 / 2) ^^ n) 1)"
      "n = 201 \<and> d = 0
         \<or> d = M2E_delta 1 (1 / 2) ((M2E_newton 1 (1 / 2) ^^ (n - 1)) 1) \<and> \<bar>d\<bar> \<le> 1 / 10 ^ 13"
    and k: "1 \<le> k" "k \<le> 201"
      "N2H_run 700 (3 / 2) = ((N2H_newton 700 (3 / 2) ^^ k) 700, c, k)"
      "N2H 700 (3 / 2) = Val ((N2H_newton 700 (3 / 2) ^^ k) 700)"
      "k = 201 \<and> c = 0
         \<or> c = N2H_delta 700 (3 / 2) ((N2H_newton 700 (3 / 2) ^^ (k - 1)) 700)
           \<and> \<bar>c\<bar> \<le> 1 / 10 ^ 13"
    by blast
  have "n \<noteq> 1"
  proof
    assume "n = 1"
    with n(4) have "\<bar>M2E_delta 1 (1 / 2) 1\<bar> \<le> 1 / 10 ^ 13" by auto
    moreover have "(1::real) / 10 ^ 13 < 1 / 6" by simp
    ultimately show False using M2E_first_correction by linarith
  qed
  with n(1) have n2: "2 \<le> n" by simp
  have "1 / 2 \<le> N2H_delta 700 (3 / 2) ((N2H_newton 700 (3 / 2) ^^ (k - 1)) 700)"
    using k(2) by (intro N2H_700_correction_large) simp_all
  then have "\<not> (c = N2H_delta 700 (3 / 2) ((N2H_newton 700 (3 / 2) ^^ (k - 1)) 700)
         \<and> \<bar>c\<bar> \<le> 1 / 10 ^ 13)" by auto
  with k(5) have k201: "k = 201" by auto
  show ?thesis using h n2 n(2,3) k(3,4) unfolding k201 by blast
qed

section \<open>Rotations\<close>

text \<open>
  The elementary rotations keep the dot product and the norm and commute with the cross
  product, the scalar multiple and the sum; so does the 3-1-3 rotation.
\<close>

lemma cos_cos: "cos t * cos t = 1 - sin t * sin (t::real)"
  using sin_cos_squared_add [of t] by (simp add: power2_eq_square)

lemma cos_cos_mult: "cos t * (cos t * x) = x - sin t * (sin t * (x::real))"
proof -
  have "cos t * (cos t * x) = (cos t * cos t) * x" by simp
  then show ?thesis by (simp add: cos_cos algebra_simps)
qed

lemma rot3_dot: "dot (rot3 t u) (rot3 t v) = dot u v"
  by (cases u, cases v) (simp add: algebra_simps cos_cos cos_cos_mult)

lemma rot1_dot: "dot (rot1 t u) (rot1 t v) = dot u v"
  by (cases u, cases v) (simp add: algebra_simps cos_cos cos_cos_mult)

lemma rot3_cross: "cross (rot3 t u) (rot3 t v) = rot3 t (cross u v)"
  by (cases u, cases v) (simp add: algebra_simps cos_cos cos_cos_mult)

lemma rot1_cross: "cross (rot1 t u) (rot1 t v) = rot1 t (cross u v)"
  by (cases u, cases v) (simp add: algebra_simps cos_cos cos_cos_mult)

lemma rot3_mult: "mult_v3 s (rot3 t v) = rot3 t (mult_v3 s v)"
  by (cases v) (simp add: algebra_simps)

lemma rot1_mult: "mult_v3 s (rot1 t v) = rot1 t (mult_v3 s v)"
  by (cases v) (simp add: algebra_simps)

lemma rot3_add: "add_v3 (rot3 t u) (rot3 t v) = rot3 t (add_v3 u v)"
  by (cases u, cases v) (simp add: algebra_simps)

lemma rot1_add: "add_v3 (rot1 t u) (rot1 t v) = rot1 t (add_v3 u v)"
  by (cases u, cases v) (simp add: algebra_simps)

lemma norm_v3_dot: "norm_v3 v = sqrt (dot v v)"
  by (cases v) simp

lemma rot313_dot: "dot (rot313 AN i th u) (rot313 AN i th v) = dot u v"
  by (simp add: rot313_def rot3_dot rot1_dot)

lemma rot313_cross: "cross (rot313 AN i th u) (rot313 AN i th v) = rot313 AN i th (cross u v)"
  by (simp add: rot313_def rot3_cross rot1_cross)

lemma rot313_mult: "mult_v3 s (rot313 AN i th v) = rot313 AN i th (mult_v3 s v)"
  by (simp add: rot313_def rot3_mult rot1_mult)

lemma rot313_add: "add_v3 (rot313 AN i th u) (rot313 AN i th v) = rot313 AN i th (add_v3 u v)"
  by (simp add: rot313_def rot3_add rot1_add)

lemma rot313_norm: "norm_v3 (rot313 AN i th v) = norm_v3 v"
  by (simp add: norm_v3_dot rot313_dot)

lemma rot313_axis3: "rot313 AN i th (0, 0, z) = (z * (sin AN * sin i), z * (- cos AN * sin i), z * cos i)"
  by (simp add: rot313_def algebra_simps)

lemma rot313_comp3: "comp3 (rot313 AN i th (x, y, z)) = x * (sin th * sin i) + y * (cos th * sin i) + z * cos i"
  by (simp add: rot313_def algebra_simps)

section \<open>The general branch of rv2elem\<close>

lemma rv2elem_general:
  fixes mu :: real and rVec vVec :: vec3
  defines "r \<equiv> norm_v3 rVec"
    and "hVec \<equiv> cross rVec vVec"
    and "cVec \<equiv> add_v3 (cross vVec (cross rVec vVec)) (mult_v3 (- mu / norm_v3 rVec) rVec)"
    and "ai \<equiv> 2 / norm_v3 rVec - dot vVec vVec / mu"
  defines "ir \<equiv> mult_v3 (1 / r) rVec"
    and "ih \<equiv> mult_v3 (1 / norm_v3 hVec) hVec"
    and "ie \<equiv> mult_v3 (1 / mu / (norm_v3 cVec / mu)) cVec"
  assumes "mu \<noteq> 0" "r \<noteq> 0" "\<not> norm_v3 hVec < 1 / 10 ^ 12" "\<bar>ai\<bar> > 1 / 10 ^ 12"
    "\<bar>norm_v3 cVec / mu\<bar> > 1 / 10 ^ 12"
  shows "rv2elem mu rVec vVec =
           Val \<lparr>elem_a = 1 / ai, elem_e = norm_v3 cVec / mu, elem_i = arccos (comp3 ih),
                elem_Omega = atan2 (comp1 ih) (- comp2 ih),
                elem_omega = atan2 (comp3 ie) (comp3 (cross ih ie)),
                elem_anom = Some (atan2 (dot (cross ie ir) ih) (dot ie ir))\<rparr>"
proof -
  have hn: "norm_v3 hVec \<noteq> 0" using assms(10) by auto
  have D: "dacos (comp3 ih) = Some (arccos (comp3 ih))"
    using dacos_unit [OF hn] by (simp add: ih_def comp3_mult)
  show ?thesis
    using assms(8-12) D
    unfolding rv2elem_def Let_def equal_v3_def set3_def r_def hVec_def cVec_def ai_def ir_def
      ih_def ie_def
    by (simp add: fp_of_def)
qed

lemma rv2elem_from_frame:
  fixes mu r h e ai :: real and rVec vVec hVec cVec :: vec3
  assumes r: "norm_v3 rVec = r" and hV: "cross rVec vVec = hVec" and h: "norm_v3 hVec = h"
    and cV: "add_v3 (cross vVec hVec) (mult_v3 (- mu / r) rVec) = cVec"
    and e: "norm_v3 cVec / mu = e" and ai: "2 / r - dot vVec vVec / mu = ai"
    and ok: "mu \<noteq> 0" "r \<noteq> 0" "\<not> h < 1 / 10 ^ 12" "\<bar>ai\<bar> > 1 / 10 ^ 12" "\<bar>e\<bar> > 1 / 10 ^ 12"
  shows "rv2elem mu rVec vVec =
           Val \<lparr>elem_a = 1 / ai, elem_e = e,
                elem_i = arccos (comp3 (mult_v3 (1 / h) hVec)),
                elem_Omega = atan2 (comp1 (mult_v3 (1 / h) hVec)) (- comp2 (mult_v3 (1 / h) hVec)),
                elem_omega = atan2 (comp3 (mult_v3 (1 / mu / e) cVec))
                               (comp3 (cross (mult_v3 (1 / h) hVec) (mult_v3 (1 / mu / e) cVec))),
                elem_anom = Some (atan2 (dot (cross (mult_v3 (1 / mu / e) cVec) (mult_v3 (1 / r) rVec))
                                           (mult_v3 (1 / h) hVec))
                                        (dot (mult_v3 (1 / mu / e) cVec) (mult_v3 (1 / r) rVec)))\<rparr>"
proof -
  have eqs: "ai = 2 / norm_v3 rVec - dot vVec vVec / mu"
    "e = norm_v3 (add_v3 (cross vVec (cross rVec vVec)) (mult_v3 (- mu / norm_v3 rVec) rVec)) / mu"
    "cVec = add_v3 (cross vVec (cross rVec vVec)) (mult_v3 (- mu / norm_v3 rVec) rVec)"
    "h = norm_v3 (cross rVec vVec)" "hVec = cross rVec vVec" "r = norm_v3 rVec"
    using assms(1-6) by auto
  show ?thesis
    using ok unfolding eqs by (rule rv2elem_general)
qed

section \<open>The orbit in its perifocal frame\<close>

lemma atan2_polar_mod:
  assumes "0 < \<rho>"
  shows "\<exists>k::int. atan2 (\<rho> * sin t) (\<rho> * cos t) = t + 2 * pi * of_int k"
proof -
  obtain \<theta> where th: "- pi < \<theta>" "\<theta> \<le> pi" "sin \<theta> = sin t" "cos \<theta> = cos t"
    using sincos_principal_value [of t] by blast
  have "atan2 (\<rho> * sin \<theta>) (\<rho> * cos \<theta>) = \<theta>" using assms th(1,2) by (rule atan2_polar)
  then have "atan2 (\<rho> * sin t) (\<rho> * cos t) = \<theta>" by (simp only: th)
  moreover obtain k :: int where "\<theta> = t + 2 * pi * of_int k"
    using th sin_cos_eq_iff [of \<theta> t] by blast
  ultimately show ?thesis by blast
qed

lemma perifocal_position:
  "(r * (cos AN * cos (AP + f) - sin AN * sin (AP + f) * cos i),
    r * (sin AN * cos (AP + f) + cos AN * sin (AP + f) * cos i),
    r * (sin (AP + f) * sin i))
   = rot313 AN i AP (r * cos f, r * sin f, 0)"
  by (simp add: rot313_def sin_add cos_add algebra_simps)

lemma perifocal_velocity:
  "(c * (cos AN * (sin (AP + f) + e * sin AP) + sin AN * (cos (AP + f) + e * cos AP) * cos i),
    c * (sin AN * (sin (AP + f) + e * sin AP) - cos AN * (cos (AP + f) + e * cos AP) * cos i),
    c * (- (cos (AP + f) + e * cos AP) * sin i))
   = rot313 AN i AP (c * sin f, - c * (e + cos f), 0)"
  by (simp add: rot313_def sin_add cos_add algebra_simps cos_cos cos_cos_mult)

lemma elem2rv_perifocal:
  assumes "0 < mu" "elem_anom E = Some f" "elem_e E \<noteq> 1"
    "0 < elem_a E * (1 - elem_e E * elem_e E)" "1 + elem_e E * cos f \<noteq> 0"
  shows "elem2rv mu E =
     Val (rot313 (elem_Omega E) (elem_i E) (elem_omega E)
            (elem_a E * (1 - elem_e E * elem_e E) / (1 + elem_e E * cos f) * cos f,
             elem_a E * (1 - elem_e E * elem_e E) / (1 + elem_e E * cos f) * sin f, 0),
          rot313 (elem_Omega E) (elem_i E) (elem_omega E)
            (- mu / sqrt (mu * (elem_a E * (1 - elem_e E * elem_e E))) * sin f,
             - (- mu / sqrt (mu * (elem_a E * (1 - elem_e E * elem_e E))))
               * (elem_e E + cos f), 0))"
proof -
  define p where "p = elem_a E * (1 - elem_e E * elem_e E)"
  have ppos: "0 < p" using assms(4) by (simp add: p_def)
  have mp: "0 < mu * p" using assms(1) ppos by simp
  have sq: "dsqrt (mu * p) = Some (sqrt (mu * p))" using mp by (simp add: dsqrt_def)
  have "0 < sqrt (mu * p)" using mp by (rule real_sqrt_gt_zero)
  then have h0: "sqrt (mu * p) \<noteq> 0" by linarith
  have dv: "ddiv (- mu) (sqrt (mu * p)) = Some (- mu / sqrt (mu * p))"
    using h0 by (simp add: ddiv_def)
  have dr: "ddiv p (1 + elem_e E * cos f) = Some (p / (1 + elem_e E * cos f))"
    using assms(5) by (simp add: ddiv_def)
  have br: "\<not> (elem_e E = 1 \<and> elem_a E > 0)" "\<not> (elem_e E = 1 \<and> elem_a E < 0)"
    using assms(3) by simp_all
  show ?thesis
    unfolding elem2rv_def Let_def assms(2) option.case p_def [symmetric]
    apply (simp only: br if_False)
    apply (simp only: p_def [symmetric] dr sq dv bind.bind_lunit fp_of_def option.case)
    apply (simp only: perifocal_position perifocal_velocity)
    done
qed

lemma norm_v3_plane: "0 \<le> r \<Longrightarrow> norm_v3 (r * cos f, r * sin f, 0) = r"
proof -
  assume r: "0 \<le> r"
  have "r * cos f * (r * cos f) + r * sin f * (r * sin f) = r * r"
    by (simp add: algebra_simps cos_cos)
  then have "r * cos f * (r * cos f) + r * sin f * (r * sin f) = r\<^sup>2"
    by (simp add: power2_eq_square)
  then show ?thesis using r by simp
qed

lemma orbit_frame_round_trip:
  fixes mu a e f p r h c :: real
  assumes mu: "0 < mu" and e: "0 < e" and p: "0 < p" and pa: "p = a * (1 - e * e)"
    and den: "0 < 1 + e * cos f"
    and r: "r = p / (1 + e * cos f)" and h: "h = sqrt (mu * p)" and c: "c = - mu / h"
  defines "u \<equiv> (r * cos f, r * sin f, 0)"
    and "w \<equiv> (c * sin f, - c * (e + cos f), 0)"
  shows "norm_v3 u = r" "0 < r" "0 < h"
    and "cross u w = (0, 0, h)"
    and "add_v3 (cross w (cross u w)) (mult_v3 (- mu / norm_v3 u) u) = (mu * e, 0, 0)"
    and "2 / norm_v3 u - dot w w / mu = 1 / a"
proof -
  have mp: "0 < mu * p" using mu p by simp
  show hpos: "0 < h" unfolding h using mp by (rule real_sqrt_gt_zero)
  have hh: "h * h = mu * p" unfolding h using mp by simp
  show rpos: "0 < r" unfolding r using p den by simp
  have rd: "r * (1 + e * cos f) = p" unfolding r using den by simp
  show nu: "norm_v3 u = r" unfolding u_def using rpos by (intro norm_v3_plane) simp
  have ch: "c * h = - mu" unfolding c using hpos by simp
  have ss: "sin f * sin f = 1 - cos f * cos f"
    using sin_cos_squared_add [of f] by (simp add: power2_eq_square)
  have "r * cos f * (- c * (e + cos f)) - r * sin f * (c * sin f) = - c * (r * (1 + e * cos f))"
    by (simp add: algebra_simps ss)
  also have "\<dots> = - c * p" by (simp only: rd)
  also have "\<dots> = h"
  proof -
    have "- c * p * h = - (c * h) * p" by (simp add: algebra_simps)
    also have "\<dots> = mu * p" unfolding ch by simp
    finally have "- c * p * h = h * h" by (simp only: hh)
    moreover have "h \<noteq> 0" using hpos by linarith
    ultimately show ?thesis using mult_right_cancel [of h "- c * p" h] by blast
  qed
  finally have z: "r * cos f * (- c * (e + cos f)) - r * sin f * (c * sin f) = h" .
  show cr: "cross u w = (0, 0, h)" unfolding u_def w_def using z by simp
  have "cross w (0, 0, h) = (- (c * h) * (e + cos f), - (c * h) * sin f, 0)"
    unfolding w_def by (simp add: algebra_simps)
  then have cw: "cross w (0, 0, h) = (mu * (e + cos f), mu * sin f, 0)" unfolding ch by simp
  have mr: "mult_v3 (- mu / r) u = (- mu * cos f, - mu * sin f, 0)"
    unfolding u_def using rpos by simp
  show "add_v3 (cross w (cross u w)) (mult_v3 (- mu / norm_v3 u) u) = (mu * e, 0, 0)"
    unfolding cr nu cw mr by (simp add: algebra_simps)
  have cc: "c * c = mu / p"
  proof -
    have "c * c * (h * h) = (c * h) * (c * h)" by (simp add: algebra_simps)
    also have "\<dots> = mu * mu" unfolding ch by simp
    finally have "c * c * (mu * p) = mu * mu" by (simp only: hh)
    then have "c * c * p = mu" using mu by (simp add: algebra_simps)
    then show ?thesis using p by (simp add: field_simps)
  qed
  have "dot w w = (c * c) * (1 + 2 * e * cos f + e * e)"
    unfolding w_def by (simp add: algebra_simps ss)
  then have dw: "dot w w / mu = (1 + 2 * e * cos f + e * e) / p"
    unfolding cc using mu p by (simp add: field_simps)
  have tr: "2 / r = 2 * (1 + e * cos f) / p" unfolding r using den p by simp
  have "2 / r - dot w w / mu = (2 * (1 + e * cos f) - (1 + 2 * e * cos f + e * e)) / p"
    unfolding dw tr by (simp only: diff_divide_distrib)
  also have "2 * (1 + e * cos f) - (1 + 2 * e * cos f + e * e) = 1 - e * e"
    by (simp add: algebra_simps)
  also have "(1 - e * e) / p = 1 / a"
  proof -
    have "a \<noteq> 0" "1 - e * e \<noteq> 0" using p pa by auto
    then show ?thesis unfolding pa by simp
  qed
  finally show "2 / norm_v3 u - dot w w / mu = 1 / a" unfolding nu .
qed

section \<open>Round trip from elements to elements\<close>

text \<open>
  C1, as the code has it. Let \<open>mu > 0\<close> and let the element set be well posed and away
  from the degenerate cases by the code's own tolerances: eccentricity above \<open>1e-12\<close> and
  not 1, semi-latus rectum \<open>a * (1 - e^2)\<close> positive, \<open>1 + e * cos f\<close> positive, \<open>|a|\<close> below
  \<open>1e12\<close> (so that \<open>|1 / a| > 1e-12\<close>), angular momentum \<open>sqrt (mu * p)\<close> at least \<open>1e-12\<close>,
  inclination strictly between 0 and \<open>pi\<close>. Then \<open>elem2rv\<close> returns a position and a
  velocity from which \<open>rv2elem\<close> recovers \<open>a\<close>, \<open>e\<close> and \<open>i\<close> exactly, \<open>Omega\<close> and \<open>omega\<close>
  modulo \<open>2 pi\<close> (exactly when they lie in \<open>(-pi, pi]\<close>, the range of \<open>atan2\<close>), and the
  true anomaly modulo \<open>2 pi\<close>.
\<close>

theorem elem2rv_rv2elem_round_trip:
  fixes E :: classicElements
  assumes mu: "0 < mu"
    and an: "elem_anom E = Some f"
    and e1: "1 / 10 ^ 12 < elem_e E" and e2: "elem_e E \<noteq> 1"
    and p: "0 < elem_a E * (1 - elem_e E * elem_e E)"
    and den: "0 < 1 + elem_e E * cos f"
    and a: "\<bar>elem_a E\<bar> < 10 ^ 12"
    and h: "1 / 10 ^ 12 \<le> sqrt (mu * (elem_a E * (1 - elem_e E * elem_e E)))"
    and i: "0 < elem_i E" "elem_i E < pi"
  shows "\<exists>rVec vVec E' f'. elem2rv mu E = Val (rVec, vVec) \<and> rv2elem mu rVec vVec = Val E'
     \<and> elem_a E' = elem_a E \<and> elem_e E' = elem_e E \<and> elem_i E' = elem_i E
     \<and> (\<exists>k::int. elem_Omega E' = elem_Omega E + 2 * pi * of_int k)
     \<and> (- pi < elem_Omega E \<and> elem_Omega E \<le> pi \<longrightarrow> elem_Omega E' = elem_Omega E)
     \<and> (\<exists>k::int. elem_omega E' = elem_omega E + 2 * pi * of_int k)
     \<and> (- pi < elem_omega E \<and> elem_omega E \<le> pi \<longrightarrow> elem_omega E' = elem_omega E)
     \<and> elem_anom E' = Some f' \<and> (\<exists>k::int. f' = f + 2 * pi * of_int k)"
proof -
  define aa where "aa = elem_a E"
  define e where "e = elem_e E"
  define AN where "AN = elem_Omega E"
  define inc where "inc = elem_i E"
  define AP where "AP = elem_omega E"
  define pp where "pp = aa * (1 - e * e)"
  define r where "r = pp / (1 + e * cos f)"
  define hh where "hh = sqrt (mu * pp)"
  define c where "c = - mu / hh"
  define u :: vec3 where "u = (r * cos f, r * sin f, 0)"
  define w :: vec3 where "w = (c * sin f, - c * (e + cos f), 0)"
  let ?R = "rot313 AN inc AP"
  have "(0::real) < 1 / 10 ^ 12" by simp
  then have epos: "0 < e" using e1 unfolding e_def by linarith
  have ppos: "0 < pp" using p by (simp add: pp_def aa_def e_def)
  have den': "0 < 1 + e * cos f" using den by (simp add: e_def)
  note fr = orbit_frame_round_trip [OF mu epos ppos pp_def den' r_def hh_def c_def]
  have nu: "norm_v3 u = r" and rpos: "0 < r" and hpos: "0 < hh"
    and cr: "cross u w = (0, 0, hh)"
    and cv: "add_v3 (cross w (cross u w)) (mult_v3 (- mu / norm_v3 u) u) = (mu * e, 0, 0)"
    and en: "2 / norm_v3 u - dot w w / mu = 1 / aa"
    using fr unfolding u_def w_def by simp_all
  have fwd: "elem2rv mu E = Val (?R u, ?R w)"
    using elem2rv_perifocal [OF mu an e2 p] den
    unfolding u_def w_def r_def pp_def c_def hh_def aa_def e_def AN_def inc_def AP_def
    by simp
  have N1: "norm_v3 (?R u) = r" by (simp only: rot313_norm nu)
  have H1: "cross (?R u) (?R w) = ?R (0, 0, hh)" by (simp only: rot313_cross cr)
  have N2: "norm_v3 (?R (0, 0, hh)) = hh" using hpos by (simp add: rot313_norm)
  have C1: "add_v3 (cross (?R w) (?R (0, 0, hh))) (mult_v3 (- mu / r) (?R u)) = ?R (mu * e, 0, 0)"
    using cv unfolding cr nu by (simp only: rot313_cross rot313_mult rot313_add)
  have N3: "norm_v3 (?R (mu * e, 0, 0)) / mu = e"
    using mu epos by (simp add: rot313_norm)
  have AI: "2 / r - dot (?R w) (?R w) / mu = 1 / aa"
    using en unfolding nu by (simp only: rot313_dot)
  have a0: "aa \<noteq> 0" using ppos by (auto simp: pp_def)
  have "\<bar>aa\<bar> < 10 ^ 12" using a by (simp add: aa_def)
  then have "1 / 10 ^ 12 < 1 / \<bar>aa\<bar>" using a0 by (intro divide_strict_left_mono) simp_all
  then have aibig: "\<bar>1 / aa\<bar> > 1 / 10 ^ 12" by (simp add: abs_divide)
  have ebig: "\<bar>e\<bar> > 1 / 10 ^ 12" using e1 epos by (simp add: e_def)
  have hbig: "\<not> hh < 1 / 10 ^ 12" using h by (simp add: hh_def pp_def aa_def e_def)
  have ok: "mu \<noteq> 0" "r \<noteq> 0" using mu rpos by simp_all
  note inv = rv2elem_from_frame [OF N1 H1 N2 C1 N3 AI ok hbig aibig ebig]
  have IH: "mult_v3 (1 / hh) (?R (0, 0, hh)) = ?R (0, 0, 1)"
    using hpos by (simp add: rot313_mult)
  have IE: "mult_v3 (1 / mu / e) (?R (mu * e, 0, 0)) = ?R (1, 0, 0)"
    using mu epos by (simp add: rot313_mult)
  have IR: "mult_v3 (1 / r) (?R u) = ?R (cos f, sin f, 0)"
    using rpos by (simp add: rot313_mult u_def)
  have IP: "cross (?R (0, 0, 1)) (?R (1, 0, 0)) = ?R (0, 1, 0)"
    by (simp add: rot313_cross)
  have D1: "cross (?R (1, 0, 0)) (?R (cos f, sin f, 0)) = ?R (0, 0, sin f)"
    by (simp add: rot313_cross)
  have D2: "dot (?R (0, 0, sin f)) (?R (0, 0, 1)) = sin f"
    by (simp add: rot313_dot)
  have D3: "dot (?R (1, 0, 0)) (?R (cos f, sin f, 0)) = cos f"
    by (simp add: rot313_dot)
  have K3: "comp3 (?R (0, 0, 1)) = cos inc" "comp1 (?R (0, 0, 1)) = sin inc * sin AN"
    "- comp2 (?R (0, 0, 1)) = sin inc * cos AN"
    by (simp_all add: rot313_axis3)
  have K1: "comp3 (?R (1, 0, 0)) = sin inc * sin AP" "comp3 (?R (0, 1, 0)) = sin inc * cos AP"
    by (simp_all add: rot313_comp3)
  have si: "0 < sin inc" using i unfolding inc_def by (intro sin_gt_zero)
  have inc: "arccos (cos inc) = inc" using i unfolding inc_def by (intro arccos_cos) simp_all
  define E' where "E' = \<lparr>elem_a = aa, elem_e = e, elem_i = inc,
     elem_Omega = atan2 (sin inc * sin AN) (sin inc * cos AN),
     elem_omega = atan2 (sin inc * sin AP) (sin inc * cos AP),
     elem_anom = Some (atan2 (sin f) (cos f))\<rparr>"
  have bk: "rv2elem mu (?R u) (?R w) = Val E'"
    unfolding inv IH IE IR IP D1 D2 D3 K3 K1 inc E'_def using a0 by simp
  have O1: "\<exists>k::int. atan2 (sin inc * sin AN) (sin inc * cos AN) = AN + 2 * pi * of_int k"
    using si by (rule atan2_polar_mod)
  have O2: "atan2 (sin inc * sin AN) (sin inc * cos AN) = AN" if "- pi < AN \<and> AN \<le> pi"
    using si that by (intro atan2_polar) simp_all
  have P1: "\<exists>k::int. atan2 (sin inc * sin AP) (sin inc * cos AP) = AP + 2 * pi * of_int k"
    using si by (rule atan2_polar_mod)
  have P2: "atan2 (sin inc * sin AP) (sin inc * cos AP) = AP" if "- pi < AP \<and> AP \<le> pi"
    using si that by (intro atan2_polar) simp_all
  have F1: "\<exists>k::int. atan2 (sin f) (cos f) = f + 2 * pi * of_int k"
    by (rule atan2_sin_cos)
  show ?thesis
    apply (rule exI [of _ "?R u"], rule exI [of _ "?R w"], rule exI [of _ E'],
        rule exI [of _ "atan2 (sin f) (cos f)"])
    using fwd bk O1 O2 P1 P2 F1
    unfolding E'_def aa_def e_def AN_def inc_def AP_def
    by simp
qed

lemma norm_v3_axis: "norm_v3 (x, 0, 0) = \<bar>x\<bar>" "norm_v3 (0, x, 0) = \<bar>x\<bar>" "norm_v3 (0, 0, x) = \<bar>x\<bar>"
  by simp_all

text \<open>
  An elliptic, inclined, non-rectilinear orbit whose semi-major axis is above \<open>1e12\<close>:
  \<open>rv2elem\<close> finds \<open>|1 / a| \<le> 1e-12\<close>, takes the orbit as parabolic and returns
  \<open>a = - rp\<close> and \<open>e = 1\<close> instead of the inputs.
\<close>

theorem round_trip_fails_beyond_parabolic_tolerance:
  "(0::real) < 3 / 5 \<and> (3::real) / 5 < 1 \<and> 0 < pi / 2 \<and> pi / 2 < pi
   \<and> elem2rv 1 \<lparr>elem_a = 25 * 10 ^ 12, elem_e = 3 / 5, elem_i = pi / 2, elem_Omega = 0,
                   elem_omega = 0, elem_anom = Some 0\<rparr>
       = Val ((10 ^ 13, 0, 0), (0, 0, 4 / 10 ^ 7))
   \<and> norm_v3 (cross (10 ^ 13, 0, 0) (0, 0, 4 / 10 ^ 7)) = 4 * 10 ^ 6
   \<and> (\<exists>E'. rv2elem 1 (10 ^ 13, 0, 0) (0, 0, 4 / 10 ^ 7) = Val E'
          \<and> elem_a E' = - (8 * 10 ^ 12) \<and> elem_e E' = 1
          \<and> elem_a E' \<noteq> 25 * 10 ^ 12 \<and> elem_e E' \<noteq> 3 / 5)"
proof -
  let ?E = "\<lparr>elem_a = 25 * 10 ^ 12, elem_e = 3 / 5, elem_i = pi / 2, elem_Omega = 0,
                   elem_omega = 0, elem_anom = Some (0::real)\<rparr>"
  have s: "sqrt 16000000000000 = 4000000"
    using real_sqrt_abs2 [of 4000000] by simp
  have fwd: "elem2rv 1 ?E = Val ((10 ^ 13, 0, 0), (0, 0, 4 / 10 ^ 7))"
    using elem2rv_perifocal [of 1 ?E 0] by (simp add: rot313_def s)
  have hn: "norm_v3 (cross (10 ^ 13, 0, 0) (0, 0, 4 / 10 ^ 7)) = 4 * 10 ^ 6"
    by (simp add: norm_v3_axis del: norm_v3.simps)
  have rn: "norm_v3 (10 ^ 13, 0, 0) = 10 ^ 13"
    by (simp add: norm_v3_axis del: norm_v3.simps)
  have "(1::real) \<noteq> 0" "norm_v3 (10 ^ 13, 0, 0) \<noteq> 0"
    by (simp_all add: norm_v3_axis del: norm_v3.simps)
  from rv2elem_energy [OF this, of "(0, 0, 4 / 10 ^ 7)"]
  obtain el where el: "rv2elem 1 (10 ^ 13, 0, 0) (0, 0, 4 / 10 ^ 7) = Val el"
    "elem_a el = - (8 * 10 ^ 12)" "elem_e el = 1"
    unfolding Let_def hn rn by (auto simp del: norm_v3.simps cross.simps)
  then have "\<exists>E'. rv2elem 1 (10 ^ 13, 0, 0) (0, 0, 4 / 10 ^ 7) = Val E'
          \<and> elem_a E' = - (8 * 10 ^ 12) \<and> elem_e E' = 1
          \<and> elem_a E' \<noteq> 25 * 10 ^ 12 \<and> elem_e E' \<noteq> 3 / 5"
    by (intro exI [of _ el]) simp
  then show ?thesis using fwd hn by simp
qed

theorem elem2rv_rv2elem_round_trip_witness:
  "(0::real) < 398600.4418
   \<and> (\<exists>rVec vVec E'.
         elem2rv 398600.4418 \<lparr>elem_a = 7000, elem_e = 0.01, elem_i = 0.9, elem_Omega = 0.1,
                                elem_omega = 0.2, elem_anom = Some 0.3\<rparr> = Val (rVec, vVec)
         \<and> rv2elem 398600.4418 rVec vVec = Val E'
         \<and> elem_a E' = 7000 \<and> elem_e E' = 0.01 \<and> elem_i E' = 0.9
         \<and> elem_Omega E' = 0.1 \<and> elem_omega E' = 0.2
         \<and> (\<exists>f' (k::int). elem_anom E' = Some f' \<and> f' = 0.3 + 2 * pi * of_int k))"
proof -
  let ?E = "\<lparr>elem_a = 7000, elem_e = 0.01, elem_i = 0.9, elem_Omega = 0.1,
                                elem_omega = 0.2, elem_anom = Some (0.3::real)\<rparr>"
  have mu: "(0::real) < 398600.4418" by simp
  have an: "elem_anom ?E = Some 0.3" by simp
  have e1: "1 / 10 ^ 12 < elem_e ?E" and e2: "elem_e ?E \<noteq> 1" by simp_all
  have p: "0 < elem_a ?E * (1 - elem_e ?E * elem_e ?E)" by simp
  have "0 < 1 + cos (3 / 10 :: real) / 100"
    using cos_ge_minus_one [of "3 / 10 :: real"] by linarith
  then have den: "0 < 1 + elem_e ?E * cos 0.3" by simp
  have a: "\<bar>elem_a ?E\<bar> < 10 ^ 12" by simp
  have one: "1 \<le> sqrt (398600.4418 * (elem_a ?E * (1 - elem_e ?E * elem_e ?E)))"
    by (rule real_sqrt_ge_one) simp
  have h: "1 / 10 ^ 12 \<le> sqrt (398600.4418 * (elem_a ?E * (1 - elem_e ?E * elem_e ?E)))"
    by (rule order_trans [OF _ one]) simp
  have i: "0 < elem_i ?E" "elem_i ?E < pi" using pi_ge_3 by simp_all
  have rng: "- pi < (0.1::real)" "(0.1::real) \<le> pi" "- pi < (0.2::real)" "(0.2::real) \<le> pi"
    using pi_ge_3 by simp_all
  from elem2rv_rv2elem_round_trip [OF mu an e1 e2 p den a h i] rng
  show ?thesis by (simp add: mu) blast
qed

end
